theory Spec2Isabelle
  imports Main "HOL-Library.Multiset"
begin

section \<open>Strings\<close>

text \<open>
  Go strings are byte sequences; they are modelled as \<^typ>\<open>string\<close>.
  \<open>strings.HasPrefix\<close> and \<open>strings.Contains\<close> compare bytes and are written out.
\<close>

fun HasPrefix :: "string \<Rightarrow> string \<Rightarrow> bool" where
  "HasPrefix s pre = (take (length pre) s = pre)"

fun Contains :: "string \<Rightarrow> string \<Rightarrow> bool" where
  "Contains [] substr = (substr = [])"
| "Contains (c # s) substr = (HasPrefix (c # s) substr \<or> Contains s substr)"

section \<open>The library functions the resolver calls\<close>

text \<open>
  \<open>net/url\<close>, \<open>strings.ToLower\<close>, \<open>strings.TrimSpace\<close>, \<open>html.Parse\<close> and
  \<open>regexp\<close> belong to the Go libraries, not to this repository. They are parameters
  of the model, collected in the record \<open>stdlib\<close>; every general theorem below holds
  for all of them. A \<open>url.URL\<close> keeps the fields the resolver reads or that decide
  how a URL prints.
\<close>

record URL =
  Scheme :: string
  Opaque :: string
  Host :: string
  Path :: string
  RawQuery :: string
  Fragment :: string

datatype NodeType = ErrorNode | TextNode | DocumentNode | ElementNode | CommentNode | DoctypeNode

record Attribute =
  Key :: string
  Val :: string

text \<open>
  An \<open>html.Node\<close>; the chain \<open>FirstChild\<close>, \<open>NextSibling\<close>, ... of a node is the
  list \<open>Children\<close>.
\<close>

datatype Node = Node (Type: NodeType) (Data: string) (Attr: "Attribute list") (Children: "Node list")

record stdlib =
  url_Parse :: "string \<Rightarrow> URL option"
  URL_String :: "URL \<Rightarrow> string"
  ResolveReference :: "URL \<Rightarrow> URL \<Rightarrow> URL"
  ToLower :: "string \<Rightarrow> string"
  TrimSpace :: "string \<Rightarrow> string"
  html_Parse :: "string \<Rightarrow> Node option"
  FindStringSubmatch :: "string \<Rightarrow> string \<Rightarrow> string list"

text \<open>\<open>url_Parse\<close> and \<open>html_Parse\<close> return \<open>None\<close> where the Go function returns an error.\<close>

section \<open>URL normalizer\<close>

text \<open>\<open>normalizeURL\<close> (favicon.go, lines 24-35). The parameter is reassigned before parsing.\<close>

definition normalizeURL :: "stdlib \<Rightarrow> string \<Rightarrow> string" where
  "normalizeURL lib resourceURL =
     (let resourceURL =
            (if \<not> HasPrefix resourceURL ''http://'' \<and> \<not> HasPrefix resourceURL ''https://''
             then ''https://'' @ resourceURL else resourceURL)
      in case url_Parse lib resourceURL of
           None \<Rightarrow> resourceURL
         | Some u \<Rightarrow> Scheme u @ ''://'' @ Host u)"

section \<open>Known-service resolver\<close>

definition knownServices :: "string \<rightharpoonup> string" where
  "knownServices = map_of
     [(''gmail.com'', ''https://ssl.gstatic.com/ui/v1/icons/mail/rfr/gmail.ico''),
      (''mail.google.com'', ''https://ssl.gstatic.com/ui/v1/icons/mail/rfr/gmail.ico''),
      (''google.com'', ''https://www.google.com/favicon.ico''),
      (''youtube.com'', ''https://www.youtube.com/favicon.ico''),
      (''github.com'', ''https://github.com/favicon.ico''),
      (''stackoverflow.com'', ''https://cdn.sstatic.net/Sites/stackoverflow/Img/favicon.ico''),
      (''twitter.com'', ''https://abs.twimg.com/favicons/twitter.ico''),
      (''facebook.com'', ''https://static.xx.fbcdn.net/rsrc.php/yV/r/hzMapiNYYpW.ico''),
      (''linkedin.com'', ''https://static.licdn.com/sc/h/1bt1uwq5akv756knzdj4l6cdc'')]"

text \<open>The bare domain of a host: lower-cased, a leading \<open>www.\<close> cut off (lines 386-389).\<close>

definition bareDomain :: "stdlib \<Rightarrow> string \<Rightarrow> string" where
  "bareDomain lib host =
     (let domain = ToLower lib host
      in if HasPrefix domain ''www.'' then drop 4 domain else domain)"

text \<open>\<open>getKnownServiceFavicon\<close> (lines 379-409); the empty string is "no known service".\<close>

definition getKnownServiceFavicon :: "stdlib \<Rightarrow> string \<Rightarrow> string" where
  "getKnownServiceFavicon lib resourceURL =
     (case url_Parse lib resourceURL of
        None \<Rightarrow> ''''
      | Some u \<Rightarrow>
          (case knownServices (bareDomain lib (Host u)) of
             Some faviconURL \<Rightarrow> faviconURL
           | None \<Rightarrow> ''''))"

section \<open>HTML candidate extractor\<close>

record IconCandidate =
  URL :: string
  Priority :: int

definition relPriorities :: "string \<rightharpoonup> int" where
  "relPriorities = map_of
     [(''icon'', 1),
      (''shortcut icon'', 2),
      (''apple-touch-icon'', 3),
      (''apple-touch-icon-precomposed'', 4),
      (''fluid-icon'', 5),
      (''mask-icon'', 6),
      (''alternate icon'', 7)]"

text \<open>
  The loop over \<open>n.Attr\<close> (lines 291-301): the triple is \<open>(rel, href, sizes)\<close>, each
  starting empty; a later attribute with the same key overwrites an earlier one.
\<close>

fun linkAttrs :: "stdlib \<Rightarrow> Attribute list \<Rightarrow> string \<times> string \<times> string \<Rightarrow> string \<times> string \<times> string" where
  "linkAttrs lib [] acc = acc"
| "linkAttrs lib (attr # attrs) (rel, href, sizes) =
     linkAttrs lib attrs
       (if Key attr = ''rel'' then (ToLower lib (TrimSpace lib (Val attr)), href, sizes)
        else if Key attr = ''href'' then (rel, TrimSpace lib (Val attr), sizes)
        else if Key attr = ''sizes'' then (rel, href, TrimSpace lib (Val attr))
        else (rel, href, sizes))"

text \<open>
  The body of \<open>traverse\<close> for a \<open>link\<close> element (lines 291-319): the candidate list with
  what this element appends to it.
\<close>

definition visitLink :: "stdlib \<Rightarrow> URL \<Rightarrow> Attribute list \<Rightarrow> IconCandidate list \<Rightarrow> IconCandidate list" where
  "visitLink lib baseURL attrs candidates =
     (case linkAttrs lib attrs ('''', '''', '''') of (rel, href, sizes) \<Rightarrow>
        (case relPriorities rel of
           None \<Rightarrow> candidates
         | Some priority \<Rightarrow>
             if href \<noteq> '''' then
               (case url_Parse lib href of
                  None \<Rightarrow> candidates
                | Some iconURL \<Rightarrow>
                    let absoluteURL = URL_String lib (ResolveReference lib baseURL iconURL);
                        priority =
                          (if sizes \<noteq> '''' \<and>
                              (Contains sizes ''32x32'' \<or> Contains sizes ''64x64'' \<or> Contains sizes ''128x128'')
                           then priority - 1 else priority)
                    in candidates @ [\<lparr>URL = absoluteURL, Priority = priority\<rparr>])
             else candidates))"

fun traverse :: "stdlib \<Rightarrow> URL \<Rightarrow> Node \<Rightarrow> IconCandidate list \<Rightarrow> IconCandidate list"
  and traverseChildren :: "stdlib \<Rightarrow> URL \<Rightarrow> Node list \<Rightarrow> IconCandidate list \<Rightarrow> IconCandidate list" where
  "traverse lib baseURL (Node t d attrs cs) candidates =
     traverseChildren lib baseURL cs
       (if t = ElementNode \<and> d = ''link'' then visitLink lib baseURL attrs candidates else candidates)"
| "traverseChildren lib baseURL [] candidates = candidates"
| "traverseChildren lib baseURL (c # cs) candidates =
     traverseChildren lib baseURL cs (traverse lib baseURL c candidates)"

text \<open>
  The sort of lines 330-336, on indices as the source has it: the inner loop compares
  position \<open>i\<close> with every later position \<open>j\<close> and swaps the two when the earlier has
  the greater priority.
\<close>

function sortInner :: "IconCandidate list \<Rightarrow> nat \<Rightarrow> nat \<Rightarrow> IconCandidate list" where
  "sortInner candidates i j =
     (if j < length candidates then
        sortInner
          (if Priority (candidates ! i) > Priority (candidates ! j)
           then candidates[i := candidates ! j, j := candidates ! i]
           else candidates)
          i (j + 1)
      else candidates)"
  by pat_completeness auto
termination
  by (relation "measure (\<lambda>(candidates, i, j). length candidates - j)") auto

declare sortInner.simps [simp del]

text \<open>
  The outer loop \<open>for i := range len(candidates) - 1\<close>: the bound \<open>n\<close> is evaluated once;
  a bound of \<open>-1\<close> (the empty list) runs no iteration, as the bound \<open>0\<close> does.
\<close>

function sortOuter :: "IconCandidate list \<Rightarrow> nat \<Rightarrow> nat \<Rightarrow> IconCandidate list" where
  "sortOuter candidates i n =
     (if i < n then sortOuter (sortInner candidates i (i + 1)) (i + 1) n else candidates)"
  by pat_completeness auto
termination
  by (relation "measure (\<lambda>(candidates, i, n). n - i)") auto

declare sortOuter.simps [simp del]

definition sortCandidates :: "IconCandidate list \<Rightarrow> IconCandidate list" where
  "sortCandidates candidates = sortOuter candidates 0 (length candidates - 1)"

text \<open>\<open>findIconCandidates\<close> (lines 274-339).\<close>

definition findIconCandidates :: "stdlib \<Rightarrow> Node \<Rightarrow> URL \<Rightarrow> IconCandidate list" where
  "findIconCandidates lib doc baseURL = sortCandidates (traverse lib baseURL doc [])"






text \<open>
  A stable sort keeps the document's order among the candidates of each priority:
  \<open>keepsDocumentOrder found out\<close> says so of the candidates \<open>found\<close> in document order
  and the list \<open>out\<close> they were sorted into.
\<close>

definition keepsDocumentOrder :: "IconCandidate list \<Rightarrow> IconCandidate list \<Rightarrow> bool" where
  "keepsDocumentOrder found out =
     (\<forall>p \<in> set (map Priority found).
        filter (\<lambda>c. Priority c = p) out = filter (\<lambda>c. Priority c = p) found)"

text \<open>
  The invariant of the outer loop before iteration \<open>i\<close>: the first \<open>i\<close> candidates are
  in ascending order of priority and none of them has a greater priority than a later one.
\<close>

definition sortedUpTo :: "IconCandidate list \<Rightarrow> nat \<Rightarrow> bool" where
  "sortedUpTo cs i =
     (sorted (map Priority (take i cs)) \<and>
      (\<forall>x \<in> set (take i cs). \<forall>y \<in> set (drop i cs). Priority x \<le> Priority y))"

section \<open>Errors, the network and the cache\<close>

text \<open>
  The Go functions return a pair \<open>(string, error)\<close>; a \<open>nil\<close> error is \<open>None\<close>. Each
  constructor stands for one error message of the source; the cause wrapped into a
  message is left out.
\<close>

datatype error =
    FailedToCreateRequest
  | FailedToFetchURL
  | Non200Response int
  | FailedToParseURL
  | FailedToReadResponseBody
  | FailedToParseHTML
  | NoValidFavicon
  | FailedToDownloadImage
  | FailedToReadImageData
  | EmptyImageData
  | NoFaviconFromBaseDomain
  | CacheError

type_synonym result = "string \<times> error option"

text \<open>
  What the resolver reads of an \<open>http.Response\<close>: \<open>Header_Get r k\<close> is
  \<open>r.Header.Get(k)\<close> (empty when the header is absent), \<open>Body\<close> is the outcome of
  \<open>io.ReadAll(r.Body)\<close> (\<open>None\<close> for a read error) and \<open>Request_URL\<close> is
  \<open>r.Request.URL.String()\<close>.
\<close>

record response =
  StatusCode :: int
  Header_Get :: "string \<Rightarrow> string"
  Body :: "string option"
  Request_URL :: string

text \<open>
  Every call that leaves the process is recorded as an event, in order: the two cache
  calls, the HEAD of the prober, the GET of the downloader and the GET of the page.
\<close>

datatype event =
    CacheGet string
  | CacheStore string string
  | HttpHead string
  | HttpGet string
  | PageGet string

text \<open>
  The three HTTP clients of the source. Each answers a URL given the events so far, so a
  server may answer differently from one call to the next; \<open>None\<close> is a non-nil error of
  the client. \<open>client_Do\<close> is the page client of \<open>createHTTPClient\<close> (redirects followed
  under its \<open>CheckRedirect\<close>), and returns the final response. \<open>NewRequest\<close> tells
  whether \<open>http.NewRequestWithContext\<close> builds a request for the URL.
\<close>

record transport =
  client_Head :: "event list \<Rightarrow> string \<Rightarrow> response option"
  client_Get :: "event list \<Rightarrow> string \<Rightarrow> response option"
  client_Do :: "event list \<Rightarrow> string \<Rightarrow> response option"
  NewRequest :: "string \<Rightarrow> bool"



text \<open>
  The cache repository behind the interface \<open>FaviconCacheRepository\<close>. The resolver
  discards what \<open>StoreFaviconBase64\<close> returns, so a store is only an event. A \<open>nil\<close>
  repository is \<open>None\<close>.
\<close>

record FaviconCacheRepository =
  GetFaviconBase64 :: "event list \<Rightarrow> string \<Rightarrow> result"

section \<open>Asset downloader\<close>

text \<open>\<open>base64.StdEncoding.EncodeToString\<close>: three bytes give four characters, padded with \<open>=\<close>.\<close>

definition encodeStd :: string where
  "encodeStd = ''ABCDEFGHIJKLMNOPQRSTUVWXYZabcdefghijklmnopqrstuvwxyz0123456789+/''"

fun EncodeToString :: "string \<Rightarrow> string" where
  "EncodeToString (a # b # c # src) =
     (let v = (of_char a :: nat) * 65536 + of_char b * 256 + of_char c
      in [encodeStd ! (v div 262144 mod 64), encodeStd ! (v div 4096 mod 64),
          encodeStd ! (v div 64 mod 64), encodeStd ! (v mod 64)] @ EncodeToString src)"
| "EncodeToString [a, b] =
     (let v = (of_char a :: nat) * 65536 + of_char b * 256
      in [encodeStd ! (v div 262144 mod 64), encodeStd ! (v div 4096 mod 64),
          encodeStd ! (v div 64 mod 64), CHR ''=''])"
| "EncodeToString [a] =
     (let v = (of_char a :: nat) * 65536
      in [encodeStd ! (v div 262144 mod 64), encodeStd ! (v div 4096 mod 64), CHR ''='', CHR ''=''])"
| "EncodeToString [] = []"

text \<open>\<open>downloadAndEncodeToBase64\<close> (lines 197-231); its client never follows a redirect.\<close>

definition downloadAndEncodeToBase64 :: "transport \<Rightarrow> string \<Rightarrow> event list \<Rightarrow> result \<times> event list" where
  "downloadAndEncodeToBase64 net imageURL tr =
     (let tr' = tr @ [HttpGet imageURL] in
      case client_Get net tr imageURL of
        None \<Rightarrow> (('''', Some FailedToDownloadImage), tr')
      | Some resp \<Rightarrow>
          if StatusCode resp \<noteq> 200 then (('''', Some (Non200Response (StatusCode resp))), tr')
          else
            (case Body resp of
               None \<Rightarrow> (('''', Some FailedToReadImageData), tr')
             | Some imageData \<Rightarrow>
                 if length imageData = 0 then (('''', Some EmptyImageData), tr')
                 else
                   let contentType = Header_Get resp ''Content-Type'';
                       contentType = (if contentType = '''' then ''image/x-icon'' else contentType);
                       base64Data = EncodeToString imageData
                   in ((''data:'' @ contentType @ '';base64,'' @ base64Data, None), tr')))"

section \<open>Standard-location prober\<close>

definition standardPaths :: "string list" where
  "standardPaths =
     [''/favicon.ico'',
      ''/apple-touch-icon.png'',
      ''/apple-touch-icon-120x120.png'',
      ''/apple-touch-icon-152x152.png'',
      ''/apple-touch-icon-180x180.png'',
      ''/apple-touch-icon-precomposed.png'',
      ''/apple-icon.png'',
      ''/android-chrome-192x192.png'',
      ''/icon-192x192.png'',
      ''/icon.png'',
      ''/favicon.png'',
      ''/favicon-32x32.png'',
      ''/favicon-16x16.png'']"

text \<open>The loop of lines 257-268 over the paths still to probe.\<close>

fun probePaths :: "transport \<Rightarrow> URL \<Rightarrow> string list \<Rightarrow> event list \<Rightarrow> string \<times> event list" where
  "probePaths net baseURL [] tr = ('''', tr)"
| "probePaths net baseURL (path # paths) tr =
     (let iconURL = Scheme baseURL @ ''://'' @ Host baseURL @ path;
          tr' = tr @ [HttpHead iconURL] in
      case client_Head net tr iconURL of
        None \<Rightarrow> probePaths net baseURL paths tr'
      | Some resp \<Rightarrow>
          if StatusCode resp = 200 then (iconURL, tr')
          else probePaths net baseURL paths tr')"

definition checkStandardFaviconLocations :: "transport \<Rightarrow> URL \<Rightarrow> event list \<Rightarrow> string \<times> event list" where
  "checkStandardFaviconLocations net baseURL tr = probePaths net baseURL standardPaths tr"

text \<open>The events of a probe of \<open>origin\<close> that finds no location: one HEAD for each path.\<close>

definition standardProbes :: "string \<Rightarrow> event list" where
  "standardProbes origin = map (\<lambda>path. HttpHead (origin @ path)) standardPaths"

section \<open>Regex fallback extractor\<close>

definition patterns :: "string list" where
  \<open>patterns =
     [''<link[^>]*rel=["'](?:shortcut'' @ [CHR 0x5C] @ ''s+)?icon["'][^>]*href=["']([^"']+)["']'',
      ''<link[^>]*href=["']([^"']+)["'][^>]*rel=["'](?:shortcut'' @ [CHR 0x5C] @ ''s+)?icon["']'',
      ''<link[^>]*rel=["']apple-touch-icon[^"']*["'][^>]*href=["']([^"']+)["']'',
      ''<link[^>]*href=["']([^"']+)["'][^>]*rel=["']apple-touch-icon[^"']*["']'',
      ''<meta[^>]*property=["']og:image["'][^>]*content=["']([^"']+)["']'',
      ''<meta[^>]*content=["']([^"']+)["'][^>]*property=["']og:image["']'',
      ''<meta[^>]*name=["']twitter:image["'][^>]*content=["']([^"']+)["']'',
      ''<meta[^>]*content=["']([^"']+)["'][^>]*name=["']twitter:image["']'']\<close>

definition IsAbs :: "URL \<Rightarrow> bool" where
  "IsAbs u = (Scheme u \<noteq> '''')"

text \<open>The loop of lines 358-373 over the patterns still to try.\<close>

fun matchPatterns :: "stdlib \<Rightarrow> string \<Rightarrow> URL \<Rightarrow> string list \<Rightarrow> string" where
  "matchPatterns lib html baseURL [] = ''''"
| "matchPatterns lib html baseURL (pattern # rest) =
     (let matches = FindStringSubmatch lib (''(?i)'' @ pattern) html in
      if length matches > 1 then
        (case url_Parse lib (matches ! 1) of
           None \<Rightarrow> matchPatterns lib html baseURL rest
         | Some iconURL \<Rightarrow>
             URL_String lib (if \<not> IsAbs iconURL then ResolveReference lib baseURL iconURL else iconURL))
      else matchPatterns lib html baseURL rest)"

definition findIconWithRegex :: "stdlib \<Rightarrow> string \<Rightarrow> URL \<Rightarrow> string" where
  "findIconWithRegex lib html baseURL = matchPatterns lib html baseURL patterns"

section \<open>Resolution orchestrator\<close>

text \<open>
  The block the source repeats at lines 78-84, 145-151, 162-168, 174-180, 185-191, 415-421
  and 427-433: download the URL; on success store the icon under the normalized URL
  (when there is a repository) and return it. \<open>Some\<close> is the \<open>return faviconBase64, nil\<close>
  of the block, \<open>None\<close> is falling through it.
\<close>

definition downloadAndStore ::
  "transport \<Rightarrow> FaviconCacheRepository option \<Rightarrow> string \<Rightarrow> string \<Rightarrow> event list \<Rightarrow> string option \<times> event list" where
  "downloadAndStore net cacheRepo normalizedURL iconURL tr =
     (case downloadAndEncodeToBase64 net iconURL tr of ((faviconBase64, err), tr') \<Rightarrow>
        if err = None \<and> faviconBase64 \<noteq> '''' then
          (Some faviconBase64,
           if cacheRepo \<noteq> None then tr' @ [CacheStore normalizedURL faviconBase64] else tr')
        else (None, tr'))"

text \<open>The same block guarded by \<open>iconURL != ""\<close>, as at lines 77, 144, 173, 414 and 426.\<close>

definition downloadIfFound ::
  "transport \<Rightarrow> FaviconCacheRepository option \<Rightarrow> string \<Rightarrow> string \<Rightarrow> event list \<Rightarrow> string option \<times> event list" where
  "downloadIfFound net cacheRepo normalizedURL iconURL tr =
     (if iconURL \<noteq> '''' then downloadAndStore net cacheRepo normalizedURL iconURL tr else (None, tr))"

text \<open>The loop over the candidates (lines 161-169).\<close>

fun tryCandidates ::
  "transport \<Rightarrow> FaviconCacheRepository option \<Rightarrow> string \<Rightarrow> IconCandidate list \<Rightarrow> event list \<Rightarrow> string option \<times> event list" where
  "tryCandidates net cacheRepo normalizedURL [] tr = (None, tr)"
| "tryCandidates net cacheRepo normalizedURL (candidate # candidates) tr =
     (case downloadAndStore net cacheRepo normalizedURL (IconCandidate.URL candidate) tr of
        (Some faviconBase64, tr') \<Rightarrow> (Some faviconBase64, tr')
      | (None, tr') \<Rightarrow> tryCandidates net cacheRepo normalizedURL candidates tr')"

text \<open>\<open>tryFaviconFromBaseDomain\<close> (lines 412-437).\<close>

definition tryFaviconFromBaseDomain ::
  "stdlib \<Rightarrow> transport \<Rightarrow> FaviconCacheRepository option \<Rightarrow> string \<Rightarrow> URL \<Rightarrow> event list \<Rightarrow> result \<times> event list" where
  "tryFaviconFromBaseDomain lib net cacheRepo normalizedURL baseURL tr =
     (case downloadIfFound net cacheRepo normalizedURL
             (getKnownServiceFavicon lib (URL_String lib baseURL)) tr of
        (Some faviconBase64, tr1) \<Rightarrow> ((faviconBase64, None), tr1)
      | (None, tr1) \<Rightarrow>
          (case checkStandardFaviconLocations net baseURL tr1 of (standardIconURL, tr2) \<Rightarrow>
             (case downloadIfFound net cacheRepo normalizedURL standardIconURL tr2 of
                (Some faviconBase64, tr3) \<Rightarrow> ((faviconBase64, None), tr3)
              | (None, tr3) \<Rightarrow> (('''', Some NoFaviconFromBaseDomain), tr3))))"

text \<open>
  \<open>FetchFaviconBase64\<close> from line 131 on: the page answered 200. Standard
  locations, the candidates of the parsed HTML, the regex fallback, the default icon.
\<close>

definition discoverFromPage ::
  "stdlib \<Rightarrow> transport \<Rightarrow> FaviconCacheRepository option \<Rightarrow> string \<Rightarrow> response \<Rightarrow> event list \<Rightarrow> result \<times> event list" where
  "discoverFromPage lib net cacheRepo normalizedURL resp tr =
     (case url_Parse lib (Request_URL resp) of
        None \<Rightarrow> (('''', Some FailedToParseURL), tr)
      | Some baseURL \<Rightarrow>
     (case Body resp of
        None \<Rightarrow> (('''', Some FailedToReadResponseBody), tr)
      | Some body \<Rightarrow>
     (case checkStandardFaviconLocations net baseURL tr of (standardIconURL, tr1) \<Rightarrow>
     (case downloadIfFound net cacheRepo normalizedURL standardIconURL tr1 of
        (Some faviconBase64, tr2) \<Rightarrow> ((faviconBase64, None), tr2)
      | (None, tr2) \<Rightarrow>
     (case html_Parse lib body of
        None \<Rightarrow> (('''', Some FailedToParseHTML), tr2)
      | Some doc \<Rightarrow>
     (case tryCandidates net cacheRepo normalizedURL (findIconCandidates lib doc baseURL) tr2 of
        (Some faviconBase64, tr3) \<Rightarrow> ((faviconBase64, None), tr3)
      | (None, tr3) \<Rightarrow>
     (case downloadIfFound net cacheRepo normalizedURL (findIconWithRegex lib body baseURL) tr3 of
        (Some faviconBase64, tr4) \<Rightarrow> ((faviconBase64, None), tr4)
      | (None, tr4) \<Rightarrow>
     (let defaultIconURL = Scheme baseURL @ ''://'' @ Host baseURL @ ''/favicon.ico'' in
      case downloadAndStore net cacheRepo normalizedURL defaultIconURL tr4 of
        (Some faviconBase64, tr5) \<Rightarrow> ((faviconBase64, None), tr5)
      | (None, tr5) \<Rightarrow> (('''', Some NoValidFavicon), tr5)))))))))"

text \<open>
  Whether a \<open>Location\<close> header points at an authorization page (line 113).
\<close>

definition authLocation :: "string \<Rightarrow> bool" where
  "authLocation location =
     (Contains location ''login'' \<or> Contains location ''signin'' \<or> Contains location ''auth'')"

text \<open>
  \<open>FetchFaviconBase64\<close>, lines 87-129: the page request and what its response leads to.
  \<open>url.Parse(resourceURL)\<close> returns a non-nil URL exactly when it returns no error.
\<close>

definition fetchPage ::
  "stdlib \<Rightarrow> transport \<Rightarrow> FaviconCacheRepository option \<Rightarrow> string \<Rightarrow> string \<Rightarrow> event list \<Rightarrow> result \<times> event list" where
  "fetchPage lib net cacheRepo normalizedURL resourceURL tr =
     (if \<not> NewRequest net resourceURL then (('''', Some FailedToCreateRequest), tr)
      else
        let tr' = tr @ [PageGet resourceURL] in
        case client_Do net tr resourceURL of
          None \<Rightarrow> (('''', Some FailedToFetchURL), tr')
        | Some resp \<Rightarrow>
            if 300 \<le> StatusCode resp \<and> StatusCode resp < 400
               \<and> authLocation (Header_Get resp ''Location'')
               \<and> url_Parse lib resourceURL \<noteq> None
            then tryFaviconFromBaseDomain lib net cacheRepo normalizedURL (the (url_Parse lib resourceURL)) tr'
            else if StatusCode resp \<noteq> 200 then
              (case url_Parse lib resourceURL of
                 Some baseURL \<Rightarrow> tryFaviconFromBaseDomain lib net cacheRepo normalizedURL baseURL tr'
               | None \<Rightarrow> (('''', Some (Non200Response (StatusCode resp))), tr'))
            else discoverFromPage lib net cacheRepo normalizedURL resp tr')"

text \<open>The cache lookup of lines 66-70: \<open>Some\<close> is a hit, which the resolver returns.\<close>

definition cacheLookup :: "FaviconCacheRepository option \<Rightarrow> string \<Rightarrow> event list \<Rightarrow> string option \<times> event list" where
  "cacheLookup cacheRepo normalizedURL tr =
     (case cacheRepo of
        None \<Rightarrow> (None, tr)
      | Some repo \<Rightarrow>
          (case GetFaviconBase64 repo tr normalizedURL of (cachedFaviconBase64, err) \<Rightarrow>
             (if err = None \<and> cachedFaviconBase64 \<noteq> '''' then Some cachedFaviconBase64 else None,
              tr @ [CacheGet normalizedURL])))"

text \<open>\<open>FetchFaviconBase64\<close> (lines 63-194).\<close>

definition FetchFaviconBase64 ::
  "stdlib \<Rightarrow> transport \<Rightarrow> FaviconCacheRepository option \<Rightarrow> string \<Rightarrow> event list \<Rightarrow> result \<times> event list" where
  "FetchFaviconBase64 lib net cacheRepo resourceURL tr =
     (let normalizedURL = normalizeURL lib resourceURL in
      case cacheLookup cacheRepo normalizedURL tr of
        (Some cachedFaviconBase64, tr1) \<Rightarrow> ((cachedFaviconBase64, None), tr1)
      | (None, tr1) \<Rightarrow>
          let resourceURL =
                (if \<not> HasPrefix resourceURL ''http://'' \<and> \<not> HasPrefix resourceURL ''https://''
                 then ''https://'' @ resourceURL else resourceURL)
          in (case downloadIfFound net cacheRepo normalizedURL (getKnownServiceFavicon lib resourceURL) tr1 of
                (Some faviconBase64, tr2) \<Rightarrow> ((faviconBase64, None), tr2)
              | (None, tr2) \<Rightarrow> fetchPage lib net cacheRepo normalizedURL resourceURL tr2))"

text \<open>\<open>FetchFavicon\<close> (lines 439-446).\<close>

definition FetchFavicon ::
  "stdlib \<Rightarrow> transport \<Rightarrow> FaviconCacheRepository option \<Rightarrow> string \<Rightarrow> event list \<Rightarrow> result \<times> event list" where
  "FetchFavicon lib net cacheRepo resourceURL tr =
     (case FetchFaviconBase64 lib net cacheRepo resourceURL tr of ((_, err), tr') \<Rightarrow>
        if err \<noteq> None then (('''', err), tr') else (('''', None), tr'))"

section \<open>Batch orchestrator\<close>

text \<open>\<open>model.Bookmark\<close>; the two times are in seconds.\<close>

record Bookmark =
  CreatedAt :: int
  UpdatedAt :: int
  Title :: string
  URL :: string
  Favicon :: string
  ID :: nat
  UserID :: nat
  ShowText :: bool

text \<open>\<open>getFavicon\<close> of the bookmark parser (lines 52-63); \<open>faviconCache\<close> is the parser's field.\<close>

definition getFavicon ::
  "stdlib \<Rightarrow> transport \<Rightarrow> FaviconCacheRepository option \<Rightarrow> string \<Rightarrow> event list \<Rightarrow> string \<times> event list" where
  "getFavicon lib net faviconCache bookmarkURL tr =
     (if bookmarkURL = '''' then ('''', tr)
      else
        (case FetchFaviconBase64 lib net faviconCache bookmarkURL tr of ((favicon, err), tr') \<Rightarrow>
           if err \<noteq> None then ('''', tr') else (favicon, tr')))"

text \<open>
  \<open>fetchFaviconsParallel\<close> (lines 66-90) starts goroutines, so it is modelled as a
  transition system whose steps are the statements of the source, interleaved in any
  order. The goroutine of index \<open>idx\<close> is at one of these points:
  not started; started, before \<open>semaphore <- struct{}{}\<close>; holding a slot, before
  \<open>getFavicon\<close>; holding the favicon it got, before the assignment to
  \<open>bookmarks[idx].Favicon\<close>; after the assignment, before the deferred \<open><-semaphore\<close>;
  after it, before the deferred \<open>wg.Done()\<close>; finished.
\<close>

datatype goroutine = NotStarted | Started | Acquired | Fetched string | Written | Released | Finished

text \<open>
  The calling goroutine is in the loop at index \<open>i\<close>, at \<open>wg.Wait()\<close>, or has returned.
\<close>

datatype caller = Loop nat | Wait | Returned

text \<open>
  \<open>semaphore\<close> is the number of elements in the channel's buffer (its capacity is
  \<open>semaphoreCap\<close>), \<open>wg\<close> the counter of the wait group.
\<close>

record batch =
  bookmarks :: "Bookmark list"
  goroutines :: "goroutine list"
  semaphore :: nat
  wg :: nat
  pc :: caller

definition semaphoreCap :: nat where
  "semaphoreCap = 10"

definition initial :: "Bookmark list \<Rightarrow> batch" where
  "initial bs =
     \<lparr>bookmarks = bs, goroutines = replicate (length bs) NotStarted,
      semaphore = 0, wg = 0, pc = Loop 0\<rparr>"

text \<open>
  One step of the batch. \<open>resolve idx url\<close> is what \<open>getFavicon\<close> returns to the
  goroutine of index \<open>idx\<close>: goroutines run at different times against a network that
  may change, so each has an outcome of its own. A send on the channel is enabled while
  the buffer is not full, a receive while it is not empty, and \<open>wg.Wait()\<close> returns when
  the counter is zero.
\<close>

inductive step :: "(nat \<Rightarrow> string \<Rightarrow> string) \<Rightarrow> batch \<Rightarrow> batch \<Rightarrow> bool"
  for resolve :: "nat \<Rightarrow> string \<Rightarrow> string" where
  skip:
    "pc s = Loop i \<Longrightarrow> i < length (bookmarks s) \<Longrightarrow> Bookmark.URL (bookmarks s ! i) = '''' \<Longrightarrow>
     step resolve s (s\<lparr>pc := Loop (i + 1)\<rparr>)"
| spawn:
    "pc s = Loop i \<Longrightarrow> i < length (bookmarks s) \<Longrightarrow> Bookmark.URL (bookmarks s ! i) \<noteq> '''' \<Longrightarrow>
     step resolve s (s\<lparr>goroutines := (goroutines s)[i := Started], wg := wg s + 1, pc := Loop (i + 1)\<rparr>)"
| leave:
    "pc s = Loop i \<Longrightarrow> \<not> i < length (bookmarks s) \<Longrightarrow>
     step resolve s (s\<lparr>pc := Wait\<rparr>)"
| wait:
    "pc s = Wait \<Longrightarrow> wg s = 0 \<Longrightarrow>
     step resolve s (s\<lparr>pc := Returned\<rparr>)"
| acquire:
    "idx < length (goroutines s) \<Longrightarrow> goroutines s ! idx = Started \<Longrightarrow> semaphore s < semaphoreCap \<Longrightarrow>
     step resolve s (s\<lparr>goroutines := (goroutines s)[idx := Acquired], semaphore := semaphore s + 1\<rparr>)"
| fetch:
    "idx < length (goroutines s) \<Longrightarrow> goroutines s ! idx = Acquired \<Longrightarrow>
     step resolve s
       (s\<lparr>goroutines := (goroutines s)[idx := Fetched (resolve idx (Bookmark.URL (bookmarks s ! idx)))]\<rparr>)"
| assign:
    "idx < length (goroutines s) \<Longrightarrow> goroutines s ! idx = Fetched favicon \<Longrightarrow>
     step resolve s
       (s\<lparr>bookmarks := (bookmarks s)[idx := (bookmarks s ! idx)\<lparr>Favicon := favicon\<rparr>],
          goroutines := (goroutines s)[idx := Written]\<rparr>)"
| release:
    "idx < length (goroutines s) \<Longrightarrow> goroutines s ! idx = Written \<Longrightarrow> 0 < semaphore s \<Longrightarrow>
     step resolve s (s\<lparr>goroutines := (goroutines s)[idx := Released], semaphore := semaphore s - 1\<rparr>)"
| finish:
    "idx < length (goroutines s) \<Longrightarrow> goroutines s ! idx = Released \<Longrightarrow> 0 < wg s \<Longrightarrow>
     step resolve s (s\<lparr>goroutines := (goroutines s)[idx := Finished], wg := wg s - 1\<rparr>)"

text \<open>The states a batch over \<open>bs\<close> can be in.\<close>

definition reachable :: "(nat \<Rightarrow> string \<Rightarrow> string) \<Rightarrow> Bookmark list \<Rightarrow> batch \<Rightarrow> bool" where
  "reachable resolve bs s = (step resolve)\<^sup>*\<^sup>* (initial bs) s"

text \<open>A goroutine holds a slot of the semaphore from its send to its receive.\<close>

fun holdsSlot :: "goroutine \<Rightarrow> bool" where
  "holdsSlot Acquired = True"
| "holdsSlot (Fetched favicon) = True"
| "holdsSlot Written = True"
| "holdsSlot g = False"

definition inFlight :: "batch \<Rightarrow> nat" where
  "inFlight s = length (filter holdsSlot (goroutines s))"

text \<open>What the batch leaves in the record of index \<open>idx\<close>.\<close>

definition settled :: "(nat \<Rightarrow> string \<Rightarrow> string) \<Rightarrow> nat \<Rightarrow> Bookmark \<Rightarrow> Bookmark" where
  "settled resolve idx b =
     (if Bookmark.URL b = '''' then b else b\<lparr>Favicon := resolve idx (Bookmark.URL b)\<rparr>)"

definition settledAll :: "(nat \<Rightarrow> string \<Rightarrow> string) \<Rightarrow> Bookmark list \<Rightarrow> Bookmark list" where
  "settledAll resolve bs = map (\<lambda>idx. settled resolve idx (bs ! idx)) [0..<length bs]"

text \<open>
  The outcome of \<open>getFavicon\<close> in the goroutine of index \<open>idx\<close>, which sees the network
  and the cache as \<open>env idx\<close>.
\<close>

definition resolveWith ::
  "stdlib \<Rightarrow> (nat \<Rightarrow> transport \<times> FaviconCacheRepository option) \<Rightarrow> nat \<Rightarrow> string \<Rightarrow> string" where
  "resolveWith lib env idx url = fst (getFavicon lib (fst (env idx)) (snd (env idx)) url [])"

section \<open>Observations on the events of a resolution\<close>

fun isCacheStore :: "event \<Rightarrow> bool" where
  "isCacheStore (CacheStore k v) = True"
| "isCacheStore e = False"

fun isPageGet :: "event \<Rightarrow> bool" where
  "isPageGet (PageGet u) = True"
| "isPageGet e = False"


text \<open>The store that follows a download whose outcome is \<open>r\<close>.\<close>

definition stored :: "FaviconCacheRepository option \<Rightarrow> string \<Rightarrow> string option \<Rightarrow> event list" where
  "stored cacheRepo normalizedURL r =
     (case r of None \<Rightarrow> [] | Some faviconBase64 \<Rightarrow>
        if cacheRepo \<noteq> None then [CacheStore normalizedURL faviconBase64] else [])"

text \<open>Events among which there is neither a store nor a page request.\<close>

definition quiet :: "event list \<Rightarrow> bool" where
  "quiet ext = (\<forall>e \<in> set ext. \<not> isCacheStore e \<and> \<not> isPageGet e)"

text \<open>
  What every stage of the cascade guarantees when it starts after the events \<open>tr\<close>: it
  adds quiet events, then one store of the returned icon when it succeeds and there is a
  repository; and it succeeds exactly when it returns a non-empty icon.
\<close>

definition cascadeOutcome ::
  "FaviconCacheRepository option \<Rightarrow> string \<Rightarrow> event list \<Rightarrow> result \<times> event list \<Rightarrow> bool" where
  "cascadeOutcome cacheRepo normalizedURL tr out =
     (case out of ((faviconBase64, err), tr') \<Rightarrow>
        (\<exists>ext. quiet ext \<and>
           tr' = tr @ ext @
             (if err = None \<and> cacheRepo \<noteq> None then [CacheStore normalizedURL faviconBase64] else [])) \<and>
        (err = None) = (faviconBase64 \<noteq> ''''))"

section \<open>Observations on the states of a batch\<close>

text \<open>
  A goroutine is running from its start to its \<open>wg.Done()\<close>; it has written its record
  once it is past the assignment.
\<close>

fun running :: "goroutine \<Rightarrow> bool" where
  "running NotStarted = False"
| "running Finished = False"
| "running g = True"

fun wrote :: "goroutine \<Rightarrow> bool" where
  "wrote Written = True"
| "wrote Released = True"
| "wrote Finished = True"
| "wrote g = False"

text \<open>The number of records the loop of the caller has gone past.\<close>

definition visited :: "batch \<Rightarrow> nat" where
  "visited s = (case pc s of Loop i \<Rightarrow> i | Wait \<Rightarrow> length (bookmarks s) | Returned \<Rightarrow> length (bookmarks s))"

text \<open>
  A bound on the steps a batch can still take: the steps each goroutine has left, and
  those of the caller.
\<close>

fun remaining :: "goroutine \<Rightarrow> nat" where
  "remaining NotStarted = 6"
| "remaining Started = 5"
| "remaining Acquired = 4"
| "remaining (Fetched favicon) = 3"
| "remaining Written = 2"
| "remaining Released = 1"
| "remaining Finished = 0"

fun callerLeft :: "caller \<Rightarrow> nat \<Rightarrow> nat" where
  "callerLeft (Loop i) n = (n - i) + 2"
| "callerLeft Wait n = 1"
| "callerLeft Returned n = 0"

definition stepsLeft :: "batch \<Rightarrow> nat" where
  "stepsLeft s =
     sum_list (map remaining (goroutines s)) + callerLeft (pc s) (length (bookmarks s))"

text \<open>
  The batch after the loop of the caller and the first \<open>k\<close> sends, in the order of the
  records: \<open>spawnedFor\<close> is the goroutine the loop leaves for a record, \<open>tasks\<close> the number
  of goroutines it starts, \<open>admit k\<close> moves the first \<open>k\<close> started goroutines past their send.
  \<open>waiting\<close> counts the goroutines that are started and have not sent.
\<close>

definition spawnedFor :: "Bookmark \<Rightarrow> goroutine" where
  "spawnedFor b = (if Bookmark.URL b = '''' then NotStarted else Started)"

definition tasks :: "Bookmark list \<Rightarrow> nat" where
  "tasks bs = length (filter (\<lambda>b. Bookmark.URL b \<noteq> '''') bs)"

fun admit :: "nat \<Rightarrow> goroutine list \<Rightarrow> goroutine list" where
  "admit 0 gs = gs"
| "admit (Suc k) [] = []"
| "admit (Suc k) (g # gs) = (if g = Started then Acquired # admit k gs else g # admit (Suc k) gs)"

definition admitted :: "Bookmark list \<Rightarrow> nat \<Rightarrow> batch" where
  "admitted bs k =
     \<lparr>bookmarks = bs, goroutines = admit k (map spawnedFor bs), semaphore = k, wg = tasks bs, pc = Wait\<rparr>"

definition waiting :: "batch \<Rightarrow> nat" where
  "waiting s = length (filter (\<lambda>g. g = Started) (goroutines s))"

section \<open>Concrete library values for the examples\<close>

text \<open>
  The examples below run the model on concrete inputs, with the values the Go library
  returns on them. \<open>exParse\<close> lists \<open>url.Parse\<close> on the URLs the examples parse.
  Go rejects \<open>https://exa mple.com\<close> (a space in the host name); it has no entry, and
  no example parses any other string without one.
\<close>

definition exURL :: "string \<Rightarrow> string \<Rightarrow> string \<Rightarrow> URL" where
  "exURL scheme host path =
     \<lparr>Scheme = scheme, Opaque = '''', Host = host, Path = path, RawQuery = '''', Fragment = ''''\<rparr>"

definition exParse :: "string \<Rightarrow> URL option" where
  "exParse = map_of
     [(''https://example.com/page'', exURL ''https'' ''example.com'' ''/page''),
      (''https://example.com'', exURL ''https'' ''example.com'' ''''),
      (''https://github.com/x'', exURL ''https'' ''github.com'' ''/x''),
      (''/a.png'', exURL '''' '''' ''/a.png''),
      (''/b.png'', exURL '''' '''' ''/b.png''),
      (''/c.png'', exURL '''' '''' ''/c.png''),
      (''/i.png'', exURL '''' '''' ''/i.png'')]"

text \<open>
  \<open>URL.String\<close> on a URL with a scheme and a host and no opaque part, query or fragment,
  and \<open>ResolveReference\<close> on a reference that is absolute or is an absolute path.
\<close>

definition exString :: "URL \<Rightarrow> string" where
  "exString u = Scheme u @ ''://'' @ Host u @ Path u"

definition exResolve :: "URL \<Rightarrow> URL \<Rightarrow> URL" where
  "exResolve base ref =
     (if Scheme ref \<noteq> '''' then ref
      else \<lparr>Scheme = Scheme base, Opaque = '''', Host = Host base, Path = Path ref,
             RawQuery = RawQuery ref, Fragment = Fragment ref\<rparr>)"

text \<open>\<open>strings.ToLower\<close> and \<open>strings.TrimSpace\<close> on ASCII strings.\<close>

definition asciiToLower :: "string \<Rightarrow> string" where
  "asciiToLower s =
     map (\<lambda>c. case map_of (zip ''ABCDEFGHIJKLMNOPQRSTUVWXYZ'' ''abcdefghijklmnopqrstuvwxyz'') c of
                 None \<Rightarrow> c | Some l \<Rightarrow> l) s"

definition asciiSpace :: "char \<Rightarrow> bool" where
  "asciiSpace c = (c \<in> set [CHR '' '', CHR 0x09, CHR 0x0A, CHR 0x0B, CHR 0x0C, CHR 0x0D])"

definition asciiTrimSpace :: "string \<Rightarrow> string" where
  "asciiTrimSpace s = rev (dropWhile asciiSpace (rev (dropWhile asciiSpace s)))"



text \<open>
  The page of the examples and its parse tree: \<open>html.Parse\<close> wraps the element in
  \<open>html\<close>, \<open>head\<close> and \<open>body\<close>. The first pattern of the regex fallback matches this page,
  with the \<open>href\<close> as its submatch; no pattern matches the empty page.
\<close>

definition exPage :: string where
  \<open>exPage = ''<link rel="shortcut icon" href="/i.png">''\<close>

definition exLink :: "string \<Rightarrow> string \<Rightarrow> string \<Rightarrow> Node" where
  "exLink rel href sizes =
     Node ElementNode ''link''
       ([\<lparr>Key = ''rel'', Val = rel\<rparr>, \<lparr>Key = ''href'', Val = href\<rparr>]
        @ (if sizes = '''' then [] else [\<lparr>Key = ''sizes'', Val = sizes\<rparr>])) []"

definition exDocument :: "Node list \<Rightarrow> Node" where
  "exDocument elements =
     Node DocumentNode '''' []
       [Node ElementNode ''html'' []
          [Node ElementNode ''head'' [] elements, Node ElementNode ''body'' [] []]]"

definition exHtmlParse :: "string \<Rightarrow> Node option" where
  "exHtmlParse = map_of
     [(exPage, exDocument [exLink ''shortcut icon'' ''/i.png'' '''']),
      ('''', exDocument [])]"

definition exFind :: "string \<Rightarrow> string \<Rightarrow> string list" where
  \<open>exFind pattern text =
     (if text = exPage \<and> pattern = ''(?i)'' @ hd patterns
      then [''<link rel="shortcut icon" href="/i.png"'', ''/i.png''] else [])\<close>

definition exLib :: stdlib where
  "exLib =
     \<lparr>url_Parse = exParse, URL_String = exString, ResolveReference = exResolve,
      ToLower = asciiToLower, TrimSpace = asciiTrimSpace,
      html_Parse = exHtmlParse, FindStringSubmatch = exFind\<rparr>"

text \<open>
  A transport given by three tables from URLs to responses (HEAD, the downloader's GET,
  the page GET); a URL with no entry is a transport error.
\<close>

definition exResponse :: "int \<Rightarrow> string \<Rightarrow> string \<Rightarrow> string \<Rightarrow> response" where
  "exResponse code contentType body url =
     \<lparr>StatusCode = code,
      Header_Get = (\<lambda>k. if k = ''Content-Type'' then contentType else ''''),
      Body = Some body, Request_URL = url\<rparr>"

definition exTransport ::
  "(string \<times> response) list \<Rightarrow> (string \<times> response) list \<Rightarrow> (string \<times> response) list \<Rightarrow> transport" where
  "exTransport heads gets pages =
     \<lparr>client_Head = (\<lambda>tr. map_of heads), client_Get = (\<lambda>tr. map_of gets),
      client_Do = (\<lambda>tr. map_of pages), NewRequest = (\<lambda>url. exParse url \<noteq> None)\<rparr>"

text \<open>A cache that holds the given entries; a missing key is an empty value and no error.\<close>

definition exCache :: "(string \<times> string) list \<Rightarrow> FaviconCacheRepository" where
  "exCache entries =
     \<lparr>GetFaviconBase64 = (\<lambda>tr key. case map_of entries key of None \<Rightarrow> ('''', None) | Some v \<Rightarrow> (v, None))\<rparr>"

text \<open>The base URL, the documents and the image responses of the examples.\<close>

definition exBase :: URL where
  "exBase = exURL ''https'' ''example.com'' ''/page''"

definition exTies :: Node where
  "exTies =
     exDocument
       [exLink ''shortcut icon'' ''/a.png'' '''', exLink ''shortcut icon'' ''/b.png'' '''',
        exLink ''icon'' ''/c.png'' '''']"



definition exIcon :: "(string \<times> response) list" where
  "exIcon =
     [(''https://example.com/i.png'', exResponse 200 ''image/png'' ''fo'' ''https://example.com/i.png''),
      (''https://example.com/j.ico'', exResponse 200 '''' ''fo'' ''https://example.com/j.ico''),
      (''https://example.com/moved.png'', exResponse 301 ''image/png'' ''fo'' ''https://example.com/moved.png''),
      (''https://example.com/empty.png'', exResponse 200 ''image/png'' '''' ''https://example.com/empty.png'')]"

text \<open>
  The networks of the examples: one that serves only the GitHub icon, one that serves
  the example page and its images, and one that answers the example page with a redirect
  to a login page. None answers a HEAD.
\<close>

definition exGithub :: transport where
  "exGithub =
     exTransport []
       [(''https://github.com/favicon.ico'',
         exResponse 200 ''image/x-icon'' ''fo'' ''https://github.com/favicon.ico'')] []"

definition exSite :: transport where
  "exSite =
     exTransport [] exIcon
       [(''https://example.com/page'', exResponse 200 ''text/html'' exPage ''https://example.com/page'')]"



text \<open>
  The batch of the examples: a known service, a record without URL, and a site that
  does not answer. The goroutine of index 0 sees the network that serves the GitHub
  icon, the others a network that answers nothing; the cache is empty.
\<close>

definition exBookmark :: "string \<Rightarrow> string \<Rightarrow> string \<Rightarrow> Bookmark" where
  "exBookmark title url favicon =
     \<lparr>CreatedAt = 0, UpdatedAt = 0, Title = title, URL = url, Favicon = favicon,
      ID = 0, UserID = 0, ShowText = False\<rparr>"

definition exBookmarks :: "Bookmark list" where
  "exBookmarks =
     [exBookmark ''GitHub'' ''github.com/x'' '''',
      exBookmark ''No address'' '''' ''kept'',
      exBookmark ''Example'' ''example.com/page'' ''replaced'']"

definition exEnv :: "nat \<Rightarrow> transport \<times> FaviconCacheRepository option" where
  "exEnv idx = (if idx = 0 then exGithub else exTransport [] [] [], Some (exCache []))"

definition exState :: "Bookmark list \<Rightarrow> goroutine list \<Rightarrow> nat \<Rightarrow> nat \<Rightarrow> caller \<Rightarrow> batch" where
  "exState bs gs sem counter p =
     \<lparr>bookmarks = bs, goroutines = gs, semaphore = sem, wg = counter, pc = p\<rparr>"

text \<open>
  Two states of this batch: one in which the first goroutine holds a slot and the last
  has not yet sent, and the one in which the caller has returned.
\<close>

definition exRunning :: batch where
  "exRunning = exState exBookmarks [Acquired, NotStarted, Started] (Suc 0) (Suc (Suc 0)) Wait"

definition exSettled :: "Bookmark list" where
  "exSettled =
     [exBookmark ''GitHub'' ''github.com/x'' ''data:image/x-icon;base64,Zm8='',
      exBookmark ''No address'' '''' ''kept'',
      exBookmark ''Example'' ''example.com/page'' '''']"

definition exReturned :: batch where
  "exReturned = exState exSettled [Finished, NotStarted, Finished] 0 0 Returned"

text \<open>
  A batch of twelve records, eleven of them with a URL, and its state when ten goroutines
  hold a slot and the eleventh is at its send.
\<close>

definition exMany :: "Bookmark list" where
  "exMany =
     replicate 5 (exBookmark ''Example'' ''example.com/page'' '''')
     @ [exBookmark ''No address'' '''' ''kept'']
     @ replicate 6 (exBookmark ''Example'' ''example.com/page'' '''')"

definition exFull :: batch where
  "exFull =
     exState exMany (replicate 5 Acquired @ [NotStarted] @ replicate 5 Acquired @ [Started]) 10 11 Wait"

section \<open>Results: the candidate sort\<close>

lemma sortInner_length: "length (sortInner cs i j) = length cs"
  by (induction cs i j rule: sortInner.induct) (subst sortInner.simps, simp)

lemma sortInner_mset: "i < j \<Longrightarrow> mset (sortInner cs i j) = mset cs"
proof (induction cs i j rule: sortInner.induct)
  case (1 cs i j)
  show ?case
  proof (cases "j < length cs")
    case True
    let ?cs' = "if Priority (cs ! i) > Priority (cs ! j) then cs[i := cs ! j, j := cs ! i] else cs"
    have "mset ?cs' = mset cs"
      using True "1.prems" mset_swap [of j cs i] by simp
    moreover have "mset (sortInner ?cs' i (j + 1)) = mset ?cs'"
      using "1.IH" [OF True] "1.prems" by simp
    ultimately show ?thesis
      using True by (subst sortInner.simps) simp
  next
    case False
    then show ?thesis by (subst sortInner.simps) simp
  qed
qed

lemma sortInner_take: "i < j \<Longrightarrow> take i (sortInner cs i j) = take i cs"
proof (induction cs i j rule: sortInner.induct)
  case (1 cs i j)
  show ?case
  proof (cases "j < length cs")
    case True
    let ?cs' = "if Priority (cs ! i) > Priority (cs ! j) then cs[i := cs ! j, j := cs ! i] else cs"
    have "take i ?cs' = take i cs"
      using "1.prems" by simp
    moreover have "take i (sortInner ?cs' i (j + 1)) = take i ?cs'"
      using "1.IH" [OF True] "1.prems" by simp
    ultimately show ?thesis
      using True by (subst sortInner.simps) simp
  next
    case False
    then show ?thesis by (subst sortInner.simps) simp
  qed
qed

lemma sortInner_least:
  "i < j \<Longrightarrow> j \<le> length cs \<Longrightarrow>
   (\<forall>k. i < k \<and> k < j \<longrightarrow> Priority (cs ! i) \<le> Priority (cs ! k)) \<Longrightarrow>
   i < k \<Longrightarrow> k < length cs \<Longrightarrow>
   Priority (sortInner cs i j ! i) \<le> Priority (sortInner cs i j ! k)"
proof (induction cs i j rule: sortInner.induct)
  case (1 cs i j)
  show ?case
  proof (cases "j < length cs")
    case True
    let ?cs' = "if Priority (cs ! i) > Priority (cs ! j) then cs[i := cs ! j, j := cs ! i] else cs"
    have len: "length ?cs' = length cs" by simp
    have inv: "\<forall>k. i < k \<and> k < j + 1 \<longrightarrow> Priority (?cs' ! i) \<le> Priority (?cs' ! k)"
    proof (intro allI impI)
      fix k assume k: "i < k \<and> k < j + 1"
      show "Priority (?cs' ! i) \<le> Priority (?cs' ! k)"
      proof (cases "k = j")
        case True
        then show ?thesis using \<open>j < length cs\<close> "1.prems"(1) by simp
      next
        case False
        then have "k < j" using k by simp
        then have "Priority (cs ! i) \<le> Priority (cs ! k)" using "1.prems"(3) k by blast
        then show ?thesis using \<open>k < j\<close> k True "1.prems"(1) by auto
      qed
    qed
    have "Priority (sortInner ?cs' i (j + 1) ! i) \<le> Priority (sortInner ?cs' i (j + 1) ! k)"
      using "1.IH" [OF True] "1.prems" True inv len by simp
    then show ?thesis
      using True by (subst (1 2) sortInner.simps) simp
  next
    case False
    then have "j = length cs" using "1.prems" by simp
    then show ?thesis using "1.prems" False by (subst (1 2) sortInner.simps) simp
  qed
qed

lemma sortInner_drop_set:
  assumes "i < j"
  shows "set (drop i (sortInner cs i j)) = set (drop i cs)"
proof -
  have "mset (take i (sortInner cs i j) @ drop i (sortInner cs i j)) = mset (take i cs @ drop i cs)"
    using sortInner_mset [OF assms] by simp
  then have "mset (drop i (sortInner cs i j)) = mset (drop i cs)"
    using sortInner_take [OF assms] by (simp del: append_take_drop_id)
  then show ?thesis by (rule mset_eq_setD)
qed

lemma sortedUpTo_step:
  assumes inv: "sortedUpTo cs i" and i: "i < length cs"
  shows "sortedUpTo (sortInner cs i (i + 1)) (i + 1)"
proof -
  let ?cs' = "sortInner cs i (i + 1)"
  have len: "length ?cs' = length cs" by (rule sortInner_length)
  have tk: "take i ?cs' = take i cs" by (rule sortInner_take) simp
  have dr: "set (drop i ?cs') = set (drop i cs)" by (rule sortInner_drop_set) simp
  have tk1: "take (i + 1) ?cs' = take i cs @ [?cs' ! i]"
    using i len tk by (simp add: take_Suc_conv_app_nth)
  have mem: "?cs' ! i \<in> set (drop i cs)"
    using dr i len by (metis Cons_nth_drop_Suc list.set_intros(1))
  have least: "\<forall>y \<in> set (drop (i + 1) ?cs'). Priority (?cs' ! i) \<le> Priority y"
  proof
    fix y assume "y \<in> set (drop (i + 1) ?cs')"
    then obtain k where k: "k < length ?cs' - (i + 1)" "y = ?cs' ! (i + 1 + k)"
      by (auto simp: in_set_conv_nth)
    have "Priority (?cs' ! i) \<le> Priority (?cs' ! (i + 1 + k))"
      using sortInner_least [of i "i + 1" cs "i + 1 + k"] i k(1) len by simp
    then show "Priority (?cs' ! i) \<le> Priority y" using k(2) by simp
  qed
  have sub: "set (drop (i + 1) ?cs') \<subseteq> set (drop i cs)"
    using dr set_drop_subset_set_drop [of i "i + 1" ?cs'] by simp
  show ?thesis
    unfolding sortedUpTo_def tk1
    using inv mem least sub
    by (auto simp: sortedUpTo_def sorted_append)
qed

lemma sortOuter_sorted:
  "sortedUpTo cs i \<Longrightarrow> i \<le> n \<Longrightarrow> n = length cs - 1 \<Longrightarrow> sorted (map Priority (sortOuter cs i n))"
proof (induction cs i n rule: sortOuter.induct)
  case (1 cs i n)
  show ?case
  proof (cases "i < n")
    case True
    then have i: "i < length cs" using "1.prems" by simp
    have "sorted (map Priority (sortOuter (sortInner cs i (i + 1)) (i + 1) n))"
      using "1.IH" [OF True] sortedUpTo_step [OF "1.prems"(1) i] True "1.prems"(3)
      by (simp add: sortInner_length)
    then show ?thesis using True by (subst sortOuter.simps) simp
  next
    case False
    then have n: "i = length cs - 1" using "1.prems" by simp
    have "sorted (map Priority (take i cs @ drop i cs))"
    proof (cases "cs = []")
      case True
      then show ?thesis by simp
    next
      case False
      then have "drop i cs = [last cs]" using n
        by (metis append_butlast_last_id append_eq_conv_conj length_butlast)
      then show ?thesis
        using "1.prems"(1) unfolding sortedUpTo_def
        by (simp only: map_append sorted_append) auto
    qed
    then show ?thesis using False by (subst sortOuter.simps) simp
  qed
qed

lemma sortOuter_mset: "mset (sortOuter cs i n) = mset cs"
proof (induction cs i n rule: sortOuter.induct)
  case (1 cs i n)
  show ?case
  proof (cases "i < n")
    case True
    then show ?thesis
      using "1.IH" [OF True] by (subst sortOuter.simps) (simp add: sortInner_mset)
  next
    case False
    then show ?thesis by (subst sortOuter.simps) simp
  qed
qed

lemma sortCandidates_sorted: "sorted (map Priority (sortCandidates cs))"
  unfolding sortCandidates_def
  by (rule sortOuter_sorted) (simp_all add: sortedUpTo_def)

lemma sortCandidates_mset: "mset (sortCandidates cs) = mset cs"
  by (simp add: sortCandidates_def sortOuter_mset)

section \<open>Results: the HTML candidate extractor\<close>

text \<open>
  Claim C1, as the code has it. For every document, the candidate list of
  \<open>findIconCandidates\<close> is in ascending order of priority, and it holds exactly the
  candidates the traversal found in the document, each as often as it was found. The
  order among candidates of equal priority is not part of this statement: the exchange
  sort of lines 330-336 does not keep it.
\<close>

theorem findIconCandidates_sorted_permutation:
  "sorted (map Priority (findIconCandidates lib doc baseURL)) \<and>
   mset (findIconCandidates lib doc baseURL) = mset (traverse lib baseURL doc [])"
  by (simp add: findIconCandidates_def sortCandidates_sorted sortCandidates_mset)

theorem findIconCandidates_sorted_permutation_witness:
  "sorted (map Priority (findIconCandidates exLib exTies exBase)) \<and>
   mset (findIconCandidates exLib exTies exBase) = mset (traverse exLib exBase exTies []) \<and>
   map Priority (findIconCandidates exLib exTies exBase) = [1, 2, 2]"
proof -
  have "map Priority (findIconCandidates exLib exTies exBase) = [1, 2, 2]"
    by code_simp
  then show ?thesis
    using findIconCandidates_sorted_permutation [of exLib exTies exBase] by simp
qed

text \<open>
  The claim as the specification states it (a stable sort) fails: two
  \<open>shortcut icon\<close> links followed by an \<open>icon\<close> link come out with the two
  \<open>shortcut icon\<close> candidates in the opposite order to the document's.
\<close>

theorem findIconCandidates_not_stable:
  "traverse exLib exBase exTies [] =
     [\<lparr>IconCandidate.URL = ''https://example.com/a.png'', Priority = 2\<rparr>,
      \<lparr>IconCandidate.URL = ''https://example.com/b.png'', Priority = 2\<rparr>,
      \<lparr>IconCandidate.URL = ''https://example.com/c.png'', Priority = 1\<rparr>] \<and>
   findIconCandidates exLib exTies exBase =
     [\<lparr>IconCandidate.URL = ''https://example.com/c.png'', Priority = 1\<rparr>,
      \<lparr>IconCandidate.URL = ''https://example.com/b.png'', Priority = 2\<rparr>,
      \<lparr>IconCandidate.URL = ''https://example.com/a.png'', Priority = 2\<rparr>] \<and>
   \<not> keepsDocumentOrder (traverse exLib exBase exTies []) (findIconCandidates exLib exTies exBase)"
  by code_simp

section \<open>Results: the URL normalizer\<close>

text \<open>
  Claim C5, as the code has it. Without an \<open>http://\<close> or \<open>https://\<close> prefix the input is
  parsed with \<open>https://\<close> prepended, otherwise as it is; the result is scheme, \<open>://\<close> and
  host of the parsed URL, and when parsing fails it is the string that was parsed, which
  is the input only when the input had a prefix already. \<open>normalizeURL\<close> is a total
  function: there is no input on which it raises.
\<close>

theorem normalizeURL_origin:
  "(\<not> HasPrefix s ''http://'' \<and> \<not> HasPrefix s ''https://'' \<longrightarrow>
      normalizeURL lib s =
        (case url_Parse lib (''https://'' @ s) of
           Some u \<Rightarrow> Scheme u @ ''://'' @ Host u
         | None \<Rightarrow> ''https://'' @ s)) \<and>
   (HasPrefix s ''http://'' \<or> HasPrefix s ''https://'' \<longrightarrow>
      normalizeURL lib s =
        (case url_Parse lib s of
           Some u \<Rightarrow> Scheme u @ ''://'' @ Host u
         | None \<Rightarrow> s)) \<and>
   normalizeURL exLib ''example.com/page'' = ''https://example.com''"
proof -
  have "normalizeURL exLib ''example.com/page'' = ''https://example.com''"
    by (simp add: normalizeURL_def exLib_def exParse_def exURL_def)
  then show ?thesis
    by (auto simp: normalizeURL_def Let_def split: option.splits)
qed

theorem normalizeURL_origin_witness:
  "normalizeURL exLib ''example.com/page'' = ''https://example.com'' \<and>
   normalizeURL exLib ''https://example.com/page'' = ''https://example.com'' \<and>
   normalizeURL exLib ''exa mple.com'' = ''https://exa mple.com''"
  using normalizeURL_origin [of "''example.com/page''" exLib]
    normalizeURL_origin [of "''https://example.com/page''" exLib]
    normalizeURL_origin [of "''exa mple.com''" exLib]
  by (simp add: exLib_def exParse_def exURL_def)

text \<open>
  The claim as the specification states it (the original input comes back unchanged when
  parsing fails) fails on an input without a scheme that does not parse.
\<close>

theorem normalizeURL_parse_failure_prefixed:
  "url_Parse exLib (''https://'' @ ''exa mple.com'') = None \<and>
   normalizeURL exLib ''exa mple.com'' \<noteq> ''exa mple.com''"
  by (simp add: normalizeURL_def exLib_def exParse_def exURL_def)

section \<open>Results: the asset downloader\<close>

text \<open>
  Claim C3. A download issues one GET and succeeds exactly when the client returns a
  response of status 200 whose body is read and is not empty; the result is then
  \<open>data:\<close>, the content type, \<open>;base64,\<close> and the encoded body, where the content type
  is the \<open>Content-Type\<close> header, or \<open>image/x-icon\<close> when \<open>Header.Get\<close> returns the empty
  string. Every other outcome is an error with an empty payload.
\<close>

theorem downloadAndEncodeToBase64_spec:
  "downloadAndEncodeToBase64 net imageURL tr = ((dataURI, err), tr') \<Longrightarrow>
   tr' = tr @ [HttpGet imageURL] \<and>
   ((err = None) =
      (\<exists>resp body. client_Get net tr imageURL = Some resp \<and> StatusCode resp = 200 \<and>
         Body resp = Some body \<and> body \<noteq> '''')) \<and>
   (\<forall>resp body. client_Get net tr imageURL = Some resp \<and> StatusCode resp = 200 \<and>
         Body resp = Some body \<and> body \<noteq> '''' \<longrightarrow>
      dataURI = ''data:''
        @ (if Header_Get resp ''Content-Type'' = '''' then ''image/x-icon''
           else Header_Get resp ''Content-Type'')
        @ '';base64,'' @ EncodeToString body) \<and>
   (err \<noteq> None \<longrightarrow> dataURI = '''')"
  by (auto simp: downloadAndEncodeToBase64_def Let_def split: option.splits if_splits)

theorem downloadAndEncodeToBase64_spec_witness:
  "downloadAndEncodeToBase64 (exTransport [] exIcon []) ''https://example.com/i.png'' []
     = ((''data:image/png;base64,Zm8='', None), [HttpGet ''https://example.com/i.png'']) \<and>
   downloadAndEncodeToBase64 (exTransport [] exIcon []) ''https://example.com/j.ico'' []
     = ((''data:image/x-icon;base64,Zm8='', None), [HttpGet ''https://example.com/j.ico'']) \<and>
   downloadAndEncodeToBase64 (exTransport [] exIcon []) ''https://example.com/moved.png'' []
     = (('''', Some (Non200Response 301)), [HttpGet ''https://example.com/moved.png'']) \<and>
   downloadAndEncodeToBase64 (exTransport [] exIcon []) ''https://example.com/empty.png'' []
     = (('''', Some EmptyImageData), [HttpGet ''https://example.com/empty.png''])"
proof -
  have a: "downloadAndEncodeToBase64 (exTransport [] exIcon []) ''https://example.com/i.png'' []
     = ((''data:image/png;base64,Zm8='', None), [HttpGet ''https://example.com/i.png''])"
    by (simp add: downloadAndEncodeToBase64_def exTransport_def exIcon_def exResponse_def encodeStd_def)
  have b: "downloadAndEncodeToBase64 (exTransport [] exIcon []) ''https://example.com/j.ico'' []
     = ((''data:image/x-icon;base64,Zm8='', None), [HttpGet ''https://example.com/j.ico''])"
    by (simp add: downloadAndEncodeToBase64_def exTransport_def exIcon_def exResponse_def encodeStd_def)
  have c: "downloadAndEncodeToBase64 (exTransport [] exIcon []) ''https://example.com/moved.png'' []
     = (('''', Some (Non200Response 301)), [HttpGet ''https://example.com/moved.png''])"
    by (simp add: downloadAndEncodeToBase64_def exTransport_def exIcon_def exResponse_def)
  have d: "downloadAndEncodeToBase64 (exTransport [] exIcon []) ''https://example.com/empty.png'' []
     = (('''', Some EmptyImageData), [HttpGet ''https://example.com/empty.png''])"
    by (simp add: downloadAndEncodeToBase64_def exTransport_def exIcon_def exResponse_def)
  show ?thesis
    using a b c d downloadAndEncodeToBase64_spec [OF a] by simp
qed

section \<open>Results: the resolution cascade\<close>

lemma download_trace: "snd (downloadAndEncodeToBase64 net u tr) = tr @ [HttpGet u]"
  by (simp add: downloadAndEncodeToBase64_def Let_def split: option.splits)

lemma download_payload:
  "downloadAndEncodeToBase64 net u tr = ((v, err), tr') \<Longrightarrow> (err = None) = (v \<noteq> '''')"
  by (auto simp: downloadAndEncodeToBase64_def Let_def split: option.splits if_splits)

lemma downloadAndStore_trace:
  "downloadAndStore net c n u tr = (r, tr') \<Longrightarrow>
   tr' = tr @ [HttpGet u] @ stored c n r \<and> r \<noteq> Some ''''"
proof -
  assume a: "downloadAndStore net c n u tr = (r, tr')"
  obtain v err t where d: "downloadAndEncodeToBase64 net u tr = ((v, err), t)"
    by (metis surj_pair)
  have t: "t = tr @ [HttpGet u]" using download_trace [of net u tr] d by simp
  show ?thesis
    using a d t by (auto simp: downloadAndStore_def stored_def split: if_splits)
qed

lemma downloadIfFound_trace:
  "downloadIfFound net c n u tr = (r, tr') \<Longrightarrow>
   tr' = tr @ (if u \<noteq> '''' then [HttpGet u] else []) @ stored c n r \<and> r \<noteq> Some ''''"
  using downloadAndStore_trace [of net c n u tr r tr']
  by (auto simp: downloadIfFound_def stored_def split: if_splits)

lemma tryCandidates_trace:
  "tryCandidates net c n cs tr = (r, tr') \<Longrightarrow>
   (\<exists>us. set us \<subseteq> IconCandidate.URL ` set cs \<and> tr' = tr @ map HttpGet us @ stored c n r) \<and> r \<noteq> Some ''''"
proof (induction cs arbitrary: tr)
  case Nil
  then show ?case by (auto simp: stored_def)
next
  case (Cons a cs)
  obtain r1 t1 where d: "downloadAndStore net c n (IconCandidate.URL a) tr = (r1, t1)"
    by (metis surj_pair)
  note dt = downloadAndStore_trace [OF d]
  show ?case
  proof (cases r1)
    case None
    then have rec: "tryCandidates net c n cs t1 = (r, tr')" using Cons.prems d by simp
    from Cons.IH [OF rec] obtain us where
      us: "set us \<subseteq> IconCandidate.URL ` set cs" "tr' = t1 @ map HttpGet us @ stored c n r" and r: "r \<noteq> Some ''''"
      by blast
    have "set (IconCandidate.URL a # us) \<subseteq> IconCandidate.URL ` set (a # cs)" using us(1) by auto
    moreover have "tr' = tr @ map HttpGet (IconCandidate.URL a # us) @ stored c n r"
      using us(2) dt None by (simp add: stored_def)
    ultimately show ?thesis using r by blast
  next
    case (Some v)
    then have "r = Some v" "tr' = t1" using Cons.prems d by simp_all
    moreover have "set [IconCandidate.URL a] \<subseteq> IconCandidate.URL ` set (a # cs)" by simp
    ultimately show ?thesis using dt Some
      by (metis (no_types, lifting) list.simps(8,9))
  qed
qed

lemma probePaths_trace:
  "probePaths net baseURL paths tr = (u, tr') \<Longrightarrow>
   \<exists>hs. tr' = tr @ map HttpHead hs"
proof (induction paths arbitrary: tr)
  case Nil
  then show ?case by simp
next
  case (Cons p paths)
  let ?u = "Scheme baseURL @ ''://'' @ Host baseURL @ p"
  show ?case
  proof (cases "probePaths net baseURL paths (tr @ [HttpHead ?u]) = (u, tr')")
    case True
    from Cons.IH [OF True] obtain hs where "tr' = (tr @ [HttpHead ?u]) @ map HttpHead hs" by blast
    then have "tr' = tr @ map HttpHead (?u # hs)" by simp
    then show ?thesis by blast
  next
    case False
    then have "tr' = tr @ [HttpHead ?u]"
      using Cons.prems by (auto simp: Let_def split: option.splits if_splits)
    then have "tr' = tr @ map HttpHead [?u]" by simp
    then show ?thesis by blast
  qed
qed

lemma quiet_simps [simp]:
  "quiet []" "quiet (HttpGet u # ext) = quiet ext" "quiet (HttpHead u # ext) = quiet ext"
  "quiet (CacheGet u # ext) = quiet ext"
  "quiet (a @ b) = (quiet a \<and> quiet b)" "quiet (map HttpGet us)" "quiet (map HttpHead us)"
  by (auto simp: quiet_def)

lemma cascadeOutcome_found:
  "quiet ext \<Longrightarrow> v \<noteq> '''' \<Longrightarrow>
   cascadeOutcome c n tr (((v, None), (tr @ ext) @ stored c n (Some v)))"
  unfolding cascadeOutcome_def stored_def by auto

lemma cascadeOutcome_failed:
  "quiet ext \<Longrightarrow> cascadeOutcome c n tr (('''', Some e), tr @ ext)"
  unfolding cascadeOutcome_def by auto

lemma cascadeOutcome_extend:
  "cascadeOutcome c n (tr @ ext) out \<Longrightarrow> quiet ext \<Longrightarrow> cascadeOutcome c n tr out"
  unfolding cascadeOutcome_def
  by (cases out) (force simp: quiet_def)

lemma downloadIfFound_step:
  assumes "downloadIfFound net c n u tr = (r, tr')"
  shows "(\<exists>ext. quiet ext \<and> tr' = (tr @ ext) @ stored c n r) \<and> r \<noteq> Some ''''"
proof -
  have "tr' = (tr @ (if u \<noteq> '''' then [HttpGet u] else [])) @ stored c n r" "r \<noteq> Some ''''"
    using downloadIfFound_trace [OF assms] by simp_all
  moreover have "quiet (if u \<noteq> '''' then [HttpGet u] else [])" by simp
  ultimately show ?thesis by blast
qed

lemma downloadAndStore_step:
  assumes "downloadAndStore net c n u tr = (r, tr')"
  shows "(\<exists>ext. quiet ext \<and> tr' = (tr @ ext) @ stored c n r) \<and> r \<noteq> Some ''''"
proof -
  have "tr' = (tr @ [HttpGet u]) @ stored c n r" "r \<noteq> Some ''''"
    using downloadAndStore_trace [OF assms] by simp_all
  moreover have "quiet [HttpGet u]" by simp
  ultimately show ?thesis by blast
qed

lemma tryCandidates_step:
  assumes "tryCandidates net c n cs tr = (r, tr')"
  shows "(\<exists>ext. quiet ext \<and> tr' = (tr @ ext) @ stored c n r) \<and> r \<noteq> Some ''''"
proof -
  obtain us where "tr' = (tr @ map HttpGet us) @ stored c n r" and r: "r \<noteq> Some ''''"
    using tryCandidates_trace [OF assms] by auto
  moreover have "quiet (map HttpGet us)" by simp
  ultimately show ?thesis by blast
qed

lemma checkStandard_step:
  assumes "checkStandardFaviconLocations net baseURL tr = (u, tr')"
  shows "\<exists>ext. quiet ext \<and> tr' = tr @ ext"
proof -
  obtain hs where "tr' = tr @ map HttpHead hs"
    using probePaths_trace assms unfolding checkStandardFaviconLocations_def by blast
  moreover have "quiet (map HttpHead hs)" by simp
  ultimately show ?thesis by blast
qed

lemma stored_None [simp]: "stored c n None = []"
  by (simp add: stored_def)

lemma tryFaviconFromBaseDomain_outcome:
  "cascadeOutcome c n tr (tryFaviconFromBaseDomain lib net c n baseURL tr)"
proof -
  obtain r1 t1 where s1:
    "downloadIfFound net c n (getKnownServiceFavicon lib (URL_String lib baseURL)) tr = (r1, t1)"
    by (metis surj_pair)
  from downloadIfFound_step [OF s1] obtain e1 where
    e1: "quiet e1" "t1 = (tr @ e1) @ stored c n r1" "r1 \<noteq> Some ''''" by blast
  show ?thesis
  proof (cases r1)
    case (Some v)
    then show ?thesis
      using s1 e1 cascadeOutcome_found [of e1 v c n tr]
      by (simp add: tryFaviconFromBaseDomain_def)
  next
    case None
    obtain u t2 where s2: "checkStandardFaviconLocations net baseURL t1 = (u, t2)"
      by (metis surj_pair)
    from checkStandard_step [OF s2] obtain e2 where e2: "quiet e2" "t2 = t1 @ e2" by blast
    obtain r3 t3 where s3: "downloadIfFound net c n u t2 = (r3, t3)"
      by (metis surj_pair)
    from downloadIfFound_step [OF s3] obtain e3 where
      e3: "quiet e3" "t3 = (t2 @ e3) @ stored c n r3" "r3 \<noteq> Some ''''" by blast
    have q: "quiet (e1 @ e2 @ e3)" using e1 e2 e3 by simp
    show ?thesis
    proof (cases r3)
      case (Some v)
      then show ?thesis
        using s1 s2 s3 None e1 e2 e3 cascadeOutcome_found [OF q, of v c n tr]
        by (simp add: tryFaviconFromBaseDomain_def)
    next
      case None': None
      show ?thesis
        using s1 s2 s3 None None' e1 e2 e3 cascadeOutcome_failed [OF q, of c n tr NoFaviconFromBaseDomain]
        by (simp add: tryFaviconFromBaseDomain_def)
    qed
  qed
qed

lemma cascadeOutcome_failed_here: "cascadeOutcome c n tr (('''', Some e), tr)"
  using cascadeOutcome_failed [of "[]" c n tr e] by simp

lemma cascade_step:
  assumes step: "\<And>r t1. f = (r, t1) \<Longrightarrow> (\<exists>ext. quiet ext \<and> t1 = (tr @ ext) @ stored c n r) \<and> r \<noteq> Some ''''"
    and rest: "\<And>t1. cascadeOutcome c n t1 (g t1)"
  shows "cascadeOutcome c n tr (case f of (Some v, t) \<Rightarrow> ((v, None), t) | (None, t) \<Rightarrow> g t)"
proof -
  obtain r t1 where f: "f = (r, t1)" by (metis surj_pair)
  from step [OF f] obtain ext where e: "quiet ext" "t1 = (tr @ ext) @ stored c n r" "r \<noteq> Some ''''"
    by blast
  show ?thesis
  proof (cases r)
    case None
    then have "t1 = tr @ ext" using e by simp
    then have "cascadeOutcome c n tr (g t1)"
      using rest [of t1] e(1) cascadeOutcome_extend by blast
    then show ?thesis using f None by simp
  next
    case (Some v)
    then show ?thesis using f e cascadeOutcome_found [of ext v c n tr] by simp
  qed
qed

lemma cascade_probe:
  assumes step: "\<And>u t1. f = (u, t1) \<Longrightarrow> \<exists>ext. quiet ext \<and> t1 = tr @ ext"
    and rest: "\<And>u t1. cascadeOutcome c n t1 (g u t1)"
  shows "cascadeOutcome c n tr (case f of (u, t) \<Rightarrow> g u t)"
proof -
  obtain u t1 where f: "f = (u, t1)" by (metis surj_pair)
  from step [OF f] obtain ext where e: "quiet ext" "t1 = tr @ ext" by blast
  have "cascadeOutcome c n tr (g u t1)"
    using rest [of t1 u] e cascadeOutcome_extend by blast
  then show ?thesis using f by simp
qed

lemma discoverFromPage_outcome:
  "cascadeOutcome c n tr (discoverFromPage lib net c n resp tr)"
proof (cases "url_Parse lib (Request_URL resp)")
  case None
  then show ?thesis by (simp add: discoverFromPage_def cascadeOutcome_failed_here)
next
  case (Some baseURL)
  note parsed = Some
  show ?thesis
  proof (cases "Body resp")
    case None
    then show ?thesis using parsed by (simp add: discoverFromPage_def cascadeOutcome_failed_here)
  next
    case (Some body)
    let ?failed = "\<lambda>t. (('''', Some NoValidFavicon), t)"
    let ?default = "\<lambda>t.
          case downloadAndStore net c n (Scheme baseURL @ ''://'' @ Host baseURL @ ''/favicon.ico'') t of
            (Some faviconBase64, tr5) \<Rightarrow> ((faviconBase64, None), tr5)
          | (None, tr5) \<Rightarrow> ?failed tr5"
    let ?regex = "\<lambda>t.
          case downloadIfFound net c n (findIconWithRegex lib body baseURL) t of
            (Some faviconBase64, tr4) \<Rightarrow> ((faviconBase64, None), tr4)
          | (None, tr4) \<Rightarrow> ?default tr4"
    let ?candidates = "\<lambda>doc t.
          case tryCandidates net c n (findIconCandidates lib doc baseURL) t of
            (Some faviconBase64, tr3) \<Rightarrow> ((faviconBase64, None), tr3)
          | (None, tr3) \<Rightarrow> ?regex tr3"
    let ?html = "\<lambda>t.
          case html_Parse lib body of
            None \<Rightarrow> (('''', Some FailedToParseHTML), t)
          | Some doc \<Rightarrow> ?candidates doc t"
    let ?standard = "\<lambda>u t.
          case downloadIfFound net c n u t of
            (Some faviconBase64, tr2) \<Rightarrow> ((faviconBase64, None), tr2)
          | (None, tr2) \<Rightarrow> ?html tr2"
    have default: "cascadeOutcome c n t (?default t)" for t
      by (rule cascade_step [where g = ?failed], erule downloadAndStore_step,
          rule cascadeOutcome_failed_here)
    have regex: "cascadeOutcome c n t (?regex t)" for t
      by (rule cascade_step [where g = ?default], erule downloadIfFound_step, rule default)
    have candidates: "cascadeOutcome c n t (?candidates doc t)" for doc t
      by (rule cascade_step [where g = ?regex], erule tryCandidates_step, rule regex)
    have html: "cascadeOutcome c n t (?html t)" for t
    proof (cases "html_Parse lib body")
      case None
      then show ?thesis by (simp add: cascadeOutcome_failed_here)
    next
      case (Some doc)
      then show ?thesis using candidates [of t doc] by simp
    qed
    have standard: "cascadeOutcome c n t (?standard u t)" for u t
      by (rule cascade_step [where g = ?html], erule downloadIfFound_step, rule html)
    have "cascadeOutcome c n tr
            (case checkStandardFaviconLocations net baseURL tr of (u, t) \<Rightarrow> ?standard u t)"
      by (rule cascade_probe [where g = ?standard], erule checkStandard_step, rule standard)
    then show ?thesis
      by (simp only: discoverFromPage_def Let_def parsed Some option.case)
  qed
qed

lemma fetchPage_outcome:
  "(\<not> NewRequest net p \<and> fetchPage lib net c n p tr = (('''', Some FailedToCreateRequest), tr)) \<or>
   (NewRequest net p \<and> cascadeOutcome c n (tr @ [PageGet p]) (fetchPage lib net c n p tr))"
  by (auto simp: fetchPage_def Let_def cascadeOutcome_failed_here tryFaviconFromBaseDomain_outcome
      discoverFromPage_outcome split: option.splits)


lemma quiet_no_store: "quiet ext \<Longrightarrow> filter isCacheStore ext = []"
  by (induction ext) (auto simp: quiet_def)

lemma quiet_no_page: "quiet ext \<Longrightarrow> filter isPageGet ext = []"
  by (induction ext) (auto simp: quiet_def)

lemma cascadeOutcome_stores:
  assumes "cascadeOutcome c n t ((v, err), t')"
  shows "filter isCacheStore t' = filter isCacheStore t @
           (if err = None \<and> c \<noteq> None then [CacheStore n v] else []) \<and>
         (err = None) = (v \<noteq> '''')"
  using assms unfolding cascadeOutcome_def by (auto simp: quiet_no_store)

lemma cacheLookup_trace:
  "cacheLookup c n tr = (hit, tr1) \<Longrightarrow>
   tr1 = tr @ (if c \<noteq> None then [CacheGet n] else []) \<and> hit \<noteq> Some ''''"
  by (auto simp: cacheLookup_def split: option.splits prod.splits if_splits)

lemma FetchFaviconBase64_outcome:
  assumes "cacheLookup c (normalizeURL lib url) tr = (hit, tr1)"
  shows "(case hit of
            Some cached \<Rightarrow> FetchFaviconBase64 lib net c url tr = ((cached, None), tr1)
          | None \<Rightarrow>
              (\<exists>e. FetchFaviconBase64 lib net c url tr = (('''', Some e), tr1)) \<or>
              (\<exists>ext. quiet ext \<and>
                 cascadeOutcome c (normalizeURL lib url) (tr1 @ ext)
                   (FetchFaviconBase64 lib net c url tr)) \<or>
              (\<exists>ext p. quiet ext \<and>
                 cascadeOutcome c (normalizeURL lib url) (tr1 @ ext @ [PageGet p])
                   (FetchFaviconBase64 lib net c url tr)))"
proof (cases hit)
  case (Some cached)
  then show ?thesis using assms by (simp add: FetchFaviconBase64_def Let_def)
next
  case None
  let ?n = "normalizeURL lib url"
  let ?p = "if \<not> HasPrefix url ''http://'' \<and> \<not> HasPrefix url ''https://'' then ''https://'' @ url else url"
  obtain r t2 where s: "downloadIfFound net c ?n (getKnownServiceFavicon lib ?p) tr1 = (r, t2)"
    by (metis surj_pair)
  from downloadIfFound_step [OF s] obtain ext where
    e: "quiet ext" "t2 = (tr1 @ ext) @ stored c ?n r" "r \<noteq> Some ''''" by blast
  show ?thesis
  proof (cases r)
    case (Some v)
    have "FetchFaviconBase64 lib net c url tr = ((v, None), t2)"
      using assms None s Some by (simp add: FetchFaviconBase64_def Let_def)
    moreover have "cascadeOutcome c ?n (tr1 @ []) ((v, None), t2)"
      using cascadeOutcome_found [of ext v c ?n tr1] e Some by simp
    ultimately have "\<exists>ext. quiet ext \<and> cascadeOutcome c ?n (tr1 @ ext) (FetchFaviconBase64 lib net c url tr)"
      by (metis quiet_simps(1))
    then show ?thesis using None by simp
  next
    case None': None
    have t2: "t2 = tr1 @ ext" using e None' by simp
    have eq: "FetchFaviconBase64 lib net c url tr = fetchPage lib net c ?n ?p t2"
      using assms None s None' by (simp add: FetchFaviconBase64_def Let_def)
    show ?thesis
    proof (cases "NewRequest net ?p")
      case True
      then have "cascadeOutcome c ?n (tr1 @ ext @ [PageGet ?p]) (FetchFaviconBase64 lib net c url tr)"
        using fetchPage_outcome [of net ?p lib c ?n t2] eq t2 by simp
      then show ?thesis using None e(1) by auto
    next
      case False
      then have "FetchFaviconBase64 lib net c url tr = (('''', Some FailedToCreateRequest), t2)"
        using fetchPage_outcome [of net ?p lib c ?n t2] eq by simp
      moreover have "cascadeOutcome c ?n (tr1 @ ext) (('''', Some FailedToCreateRequest), tr1 @ ext)"
        by (rule cascadeOutcome_failed_here)
      ultimately show ?thesis using None e(1) t2 by auto
    qed
  qed
qed

lemma exCache_get: "GetFaviconBase64 (exCache es) tr k = (case map_of es k of None \<Rightarrow> ('''', None) | Some v \<Rightarrow> (v, None))"
  by (simp add: exCache_def)

lemma exGithub_download:
  "downloadAndEncodeToBase64 exGithub ''https://github.com/favicon.ico'' tr =
     ((''data:image/x-icon;base64,Zm8='', None), tr @ [HttpGet ''https://github.com/favicon.ico''])"
  by (simp add: downloadAndEncodeToBase64_def exGithub_def exTransport_def exResponse_def encodeStd_def)

lemma exGithub_normalized: "normalizeURL exLib ''github.com/x'' = ''https://github.com''"
  by (simp add: normalizeURL_def exLib_def exParse_def exURL_def)

lemma exGithub_known:
  "getKnownServiceFavicon exLib ''https://github.com/x'' = ''https://github.com/favicon.ico''"
  by code_simp

lemma exGithub_resolution:
  "FetchFaviconBase64 exLib exGithub (Some (exCache [])) ''github.com/x'' [] =
     ((''data:image/x-icon;base64,Zm8='', None),
      [CacheGet ''https://github.com'', HttpGet ''https://github.com/favicon.ico'',
       CacheStore ''https://github.com'' ''data:image/x-icon;base64,Zm8=''])"
  by (simp add: FetchFaviconBase64_def exGithub_normalized exGithub_known exGithub_download
      cacheLookup_def exCache_get Let_def downloadIfFound_def downloadAndStore_def)

lemma exExample_normalized: "normalizeURL exLib ''example.com/page'' = ''https://example.com''"
  by (simp add: normalizeURL_def exLib_def exParse_def exURL_def)


lemma exExample_unknown: "getKnownServiceFavicon exLib ''https://example.com/page'' = ''''"
  by code_simp

lemma exExample_parsed: "url_Parse exLib ''https://example.com/page'' = Some exBase"
  by (simp add: exLib_def exParse_def exBase_def)

lemma exHit_resolution:
  "FetchFaviconBase64 exLib (exTransport [] [] [])
      (Some (exCache [(''https://example.com'', ''data:image/png;base64,Zm8='')])) ''example.com/page'' [] =
     ((''data:image/png;base64,Zm8='', None), [CacheGet ''https://example.com''])"
  by (simp add: FetchFaviconBase64_def exExample_normalized cacheLookup_def exCache_get Let_def)

lemma exDown_resolution:
  "FetchFaviconBase64 exLib (exTransport [] [] []) (Some (exCache [])) ''example.com/page'' [] =
     (('''', Some FailedToFetchURL), [CacheGet ''https://example.com'', PageGet ''https://example.com/page''])"
  by (simp add: FetchFaviconBase64_def exExample_normalized exExample_unknown cacheLookup_def
      exCache_get Let_def downloadIfFound_def fetchPage_def exTransport_def exParse_def)


lemma exGithub_resolution_no_cache:
  "FetchFaviconBase64 exLib exGithub None ''github.com/x'' [] =
     ((''data:image/x-icon;base64,Zm8='', None), [HttpGet ''https://github.com/favicon.ico''])"
  by (simp add: FetchFaviconBase64_def exGithub_normalized exGithub_known exGithub_download
      cacheLookup_def Let_def downloadIfFound_def downloadAndStore_def)

text \<open>
  The page of the examples, end to end: no standard location answers, the \<open>link\<close> of the
  page is downloaded and stored under the origin of the page.
\<close>

lemma exSite_download:
  "downloadAndEncodeToBase64 exSite ''https://example.com/i.png'' tr =
     ((''data:image/png;base64,Zm8='', None), tr @ [HttpGet ''https://example.com/i.png''])"
  by (simp add: downloadAndEncodeToBase64_def exSite_def exIcon_def exTransport_def exResponse_def
      encodeStd_def)

lemma exSite_probe:
  "checkStandardFaviconLocations exSite exBase tr = ('''', tr @ standardProbes ''https://example.com'')"
  by (simp add: checkStandardFaviconLocations_def standardProbes_def standardPaths_def exSite_def
      exTransport_def exBase_def exURL_def)

lemma exSite_candidates:
  "findIconCandidates exLib (exDocument [exLink ''shortcut icon'' ''/i.png'' '''']) exBase =
     [\<lparr>IconCandidate.URL = ''https://example.com/i.png'', Priority = 2\<rparr>]"
  by code_simp

lemma exSite_discovery:
  "discoverFromPage exLib exSite (Some (exCache [])) ''https://example.com''
     (exResponse 200 ''text/html'' exPage ''https://example.com/page'') tr =
   ((''data:image/png;base64,Zm8='', None),
    tr @ standardProbes ''https://example.com''
      @ [HttpGet ''https://example.com/i.png'',
         CacheStore ''https://example.com'' ''data:image/png;base64,Zm8=''])"
proof -
  have h: "html_Parse exLib exPage = Some (exDocument [exLink ''shortcut icon'' ''/i.png'' ''''])"
    by (simp add: exLib_def exHtmlParse_def)
  show ?thesis
    by (simp add: discoverFromPage_def exResponse_def exExample_parsed h exSite_probe
        exSite_candidates exSite_download downloadIfFound_def downloadAndStore_def)
qed

lemma exSite_resolution:
  "FetchFaviconBase64 exLib exSite (Some (exCache [])) ''example.com/page'' [] =
     ((''data:image/png;base64,Zm8='', None),
      [CacheGet ''https://example.com'', PageGet ''https://example.com/page'']
      @ standardProbes ''https://example.com''
      @ [HttpGet ''https://example.com/i.png'',
         CacheStore ''https://example.com'' ''data:image/png;base64,Zm8=''])"
proof -
  have f: "fetchPage exLib exSite (Some (exCache [])) ''https://example.com'' ''https://example.com/page'' tr =
      discoverFromPage exLib exSite (Some (exCache [])) ''https://example.com''
        (exResponse 200 ''text/html'' exPage ''https://example.com/page'')
        (tr @ [PageGet ''https://example.com/page''])" for tr
    by (simp add: fetchPage_def exSite_def exTransport_def exParse_def exResponse_def)
  show ?thesis
    by (simp add: FetchFaviconBase64_def exExample_normalized exExample_unknown cacheLookup_def
        exCache_get Let_def downloadIfFound_def f exSite_discovery)
qed

text \<open>
  Claim C6, as the code has it. The stores of a resolution call are those before it and,
  exactly when the call succeeds by a download (not by a cache hit) and a cache
  repository is configured, one store of the returned data URI under the normalized URL.
  So a call that fails stores nothing, a failed download in the middle of the cascade
  stores nothing, and a call with no repository stores nothing.
\<close>

theorem cache_store_on_download_success:
  "FetchFaviconBase64 lib net cacheRepo resourceURL tr = ((faviconBase64, err), tr') \<Longrightarrow>
   filter isCacheStore tr' =
     filter isCacheStore tr @
       (if err = None \<and> cacheRepo \<noteq> None \<and>
           fst (cacheLookup cacheRepo (normalizeURL lib resourceURL) tr) = None
        then [CacheStore (normalizeURL lib resourceURL) faviconBase64] else []) \<and>
   (err = None) = (faviconBase64 \<noteq> '''')"
proof -
  assume a: "FetchFaviconBase64 lib net cacheRepo resourceURL tr = ((faviconBase64, err), tr')"
  let ?n = "normalizeURL lib resourceURL"
  obtain hit tr1 where l: "cacheLookup cacheRepo ?n tr = (hit, tr1)"
    by (metis surj_pair)
  note lt = cacheLookup_trace [OF l]
  have tr1: "filter isCacheStore tr1 = filter isCacheStore tr" using lt by simp
  note o = FetchFaviconBase64_outcome [OF l, of net]
  show ?thesis
  proof (cases hit)
    case (Some cached)
    then show ?thesis using o a l lt tr1 by auto
  next
    case None
    then consider
      (fail) e where "FetchFaviconBase64 lib net cacheRepo resourceURL tr = (('''', Some e), tr1)"
    | (known) ext where "quiet ext"
        "cascadeOutcome cacheRepo ?n (tr1 @ ext) (FetchFaviconBase64 lib net cacheRepo resourceURL tr)"
    | (page) ext p where "quiet ext"
        "cascadeOutcome cacheRepo ?n (tr1 @ ext @ [PageGet p]) (FetchFaviconBase64 lib net cacheRepo resourceURL tr)"
      using o by auto
    then show ?thesis
    proof cases
      case fail
      then show ?thesis using a tr1 by simp
    next
      case known
      then show ?thesis
        using cascadeOutcome_stores [of cacheRepo ?n "tr1 @ ext" faviconBase64 err tr'] a l None tr1
        by (simp add: quiet_no_store)
    next
      case page
      then show ?thesis
        using cascadeOutcome_stores [of cacheRepo ?n "tr1 @ ext @ [PageGet p]" faviconBase64 err tr'] a l None tr1
        by (simp add: quiet_no_store)
    qed
  qed
qed

theorem cache_store_on_download_success_witness:
  "FetchFaviconBase64 exLib exGithub (Some (exCache [])) ''github.com/x'' [] =
     ((''data:image/x-icon;base64,Zm8='', None),
      [CacheGet ''https://github.com'', HttpGet ''https://github.com/favicon.ico'',
       CacheStore ''https://github.com'' ''data:image/x-icon;base64,Zm8='']) \<and>
   filter isCacheStore
     (snd (FetchFaviconBase64 exLib exGithub (Some (exCache [])) ''github.com/x'' [])) =
     [CacheStore (normalizeURL exLib ''github.com/x'') ''data:image/x-icon;base64,Zm8=''] \<and>
   FetchFaviconBase64 exLib (exTransport [] [] []) (Some (exCache [])) ''example.com/page'' [] =
     (('''', Some FailedToFetchURL), [CacheGet ''https://example.com'', PageGet ''https://example.com/page''])"
proof -
  have miss: "fst (cacheLookup (Some (exCache [])) (normalizeURL exLib ''github.com/x'') []) = None"
    by (simp add: cacheLookup_def exCache_get)
  show ?thesis
    using cache_store_on_download_success [OF exGithub_resolution] miss
      cache_store_on_download_success [OF exDown_resolution]
    by (simp add: exGithub_resolution exDown_resolution)
qed

text \<open>
  The claim as the specification states it (a store exactly when the resolution
  succeeds) fails on a cache hit: the call succeeds and stores nothing.
\<close>

theorem cache_hit_stores_nothing:
  "FetchFaviconBase64 exLib (exTransport [] [] [])
      (Some (exCache [(''https://example.com'', ''data:image/png;base64,Zm8='')])) ''example.com/page'' [] =
     ((''data:image/png;base64,Zm8='', None), [CacheGet ''https://example.com'']) \<and>
   filter isCacheStore
     (snd (FetchFaviconBase64 exLib (exTransport [] [] [])
        (Some (exCache [(''https://example.com'', ''data:image/png;base64,Zm8='')])) ''example.com/page'' [])) = [] \<and>
   FetchFaviconBase64 exLib exGithub None ''github.com/x'' [] =
     ((''data:image/x-icon;base64,Zm8='', None), [HttpGet ''https://github.com/favicon.ico''])"
  by (simp add: exHit_resolution exGithub_resolution_no_cache)

lemma lib_update_normalizeURL [simp]:
  "normalizeURL (lib\<lparr>html_Parse := h, FindStringSubmatch := f\<rparr>) = normalizeURL lib"
  by (rule ext) (simp add: normalizeURL_def)

lemma lib_update_bareDomain [simp]:
  "bareDomain (lib\<lparr>html_Parse := h, FindStringSubmatch := f\<rparr>) = bareDomain lib"
  by (intro ext) (simp add: bareDomain_def)

lemma lib_update_known [simp]:
  "getKnownServiceFavicon (lib\<lparr>html_Parse := h, FindStringSubmatch := f\<rparr>) = getKnownServiceFavicon lib"
  by (rule ext) (simp add: getKnownServiceFavicon_def cong: option.case_cong)

lemma lib_update_base [simp]:
  "tryFaviconFromBaseDomain (lib\<lparr>html_Parse := h, FindStringSubmatch := f\<rparr>) = tryFaviconFromBaseDomain lib"
  by (intro ext) (simp add: tryFaviconFromBaseDomain_def)








lemma knownServices_nonempty: "knownServices d = Some faviconURL \<Longrightarrow> faviconURL \<noteq> ''''"
  by (auto simp: knownServices_def split: if_splits)

lemma cascadeOutcome_prefix:
  "cascadeOutcome c n t out \<Longrightarrow> \<exists>rest. snd out = t @ rest"
  unfolding cascadeOutcome_def by (cases out) auto

text \<open>
  Claim C7. The known-service resolver returns the table's icon URL for a URL whose host,
  lower-cased and without a leading \<open>www.\<close>, is a key of the table, and the empty string
  when it is not. When the table has the host of the request URL and the download of its
  icon succeeds, the resolution succeeds without a page request, and returns that icon
  unless the cache answered first. When the cache has not answered and the table has no
  entry, the resolution is the page discovery, which starts with the page request once
  the request is built.
\<close>

theorem known_service_short_circuit:
  "bareDomain lib host =
     (if HasPrefix (ToLower lib host) ''www.'' then drop 4 (ToLower lib host) else ToLower lib host) \<and>
   (url_Parse lib url = Some u \<and> knownServices (bareDomain lib (Host u)) = Some faviconURL \<longrightarrow>
      getKnownServiceFavicon lib url = faviconURL \<and> faviconURL \<noteq> '''') \<and>
   (url_Parse lib url = Some u \<and> knownServices (bareDomain lib (Host u)) = None \<longrightarrow>
      getKnownServiceFavicon lib url = '''') \<and>
   (cacheLookup cacheRepo (normalizeURL lib resourceURL) tr = (hit, tr1) \<and>
    requestURL =
      (if \<not> HasPrefix resourceURL ''http://'' \<and> \<not> HasPrefix resourceURL ''https://''
       then ''https://'' @ resourceURL else resourceURL) \<and>
    getKnownServiceFavicon lib requestURL = iconURL \<and> iconURL \<noteq> '''' \<and>
    downloadAndEncodeToBase64 net iconURL tr1 = ((faviconBase64, None), tr2) \<longrightarrow>
      snd (fst (FetchFaviconBase64 lib net cacheRepo resourceURL tr)) = None \<and>
      filter isPageGet (snd (FetchFaviconBase64 lib net cacheRepo resourceURL tr)) = filter isPageGet tr \<and>
      (hit = None \<longrightarrow> fst (fst (FetchFaviconBase64 lib net cacheRepo resourceURL tr)) = faviconBase64)) \<and>
   (cacheLookup cacheRepo (normalizeURL lib resourceURL) tr = (None, tr1) \<and>
    requestURL =
      (if \<not> HasPrefix resourceURL ''http://'' \<and> \<not> HasPrefix resourceURL ''https://''
       then ''https://'' @ resourceURL else resourceURL) \<and>
    getKnownServiceFavicon lib requestURL = '''' \<longrightarrow>
      FetchFaviconBase64 lib net cacheRepo resourceURL tr =
        fetchPage lib net cacheRepo (normalizeURL lib resourceURL) requestURL tr1 \<and>
      (NewRequest net requestURL \<longrightarrow>
         (\<exists>rest. snd (FetchFaviconBase64 lib net cacheRepo resourceURL tr) = tr1 @ PageGet requestURL # rest)))"
proof -
  let ?n = "normalizeURL lib resourceURL"
  let ?p = "if \<not> HasPrefix resourceURL ''http://'' \<and> \<not> HasPrefix resourceURL ''https://''
            then ''https://'' @ resourceURL else resourceURL"
  have bare: "bareDomain lib host =
     (if HasPrefix (ToLower lib host) ''www.'' then drop 4 (ToLower lib host) else ToLower lib host)"
    by (simp add: bareDomain_def Let_def)
  have table_hit: "url_Parse lib url = Some u \<and> knownServices (bareDomain lib (Host u)) = Some faviconURL \<longrightarrow>
      getKnownServiceFavicon lib url = faviconURL \<and> faviconURL \<noteq> ''''"
    using knownServices_nonempty by (auto simp: getKnownServiceFavicon_def)
  have table_miss: "url_Parse lib url = Some u \<and> knownServices (bareDomain lib (Host u)) = None \<longrightarrow>
      getKnownServiceFavicon lib url = ''''"
    by (auto simp: getKnownServiceFavicon_def)
  have found: "snd (fst (FetchFaviconBase64 lib net cacheRepo resourceURL tr)) = None \<and>
      filter isPageGet (snd (FetchFaviconBase64 lib net cacheRepo resourceURL tr)) = filter isPageGet tr \<and>
      (hit = None \<longrightarrow> fst (fst (FetchFaviconBase64 lib net cacheRepo resourceURL tr)) = faviconBase64)"
    if l: "cacheLookup cacheRepo ?n tr = (hit, tr1)"
      and k: "getKnownServiceFavicon lib ?p = iconURL" "iconURL \<noteq> ''''"
      and d: "downloadAndEncodeToBase64 net iconURL tr1 = ((faviconBase64, None), tr2)"
  proof -
    have tr1: "filter isPageGet tr1 = filter isPageGet tr"
      using cacheLookup_trace [OF l] by simp
    have tr2: "tr2 = tr1 @ [HttpGet iconURL]"
      using download_trace [of net iconURL tr1] d by simp
    have v: "faviconBase64 \<noteq> ''''" using download_payload [OF d] by simp
    show ?thesis
    proof (cases hit)
      case (Some cached)
      then show ?thesis using l tr1 by (simp add: FetchFaviconBase64_def Let_def)
    next
      case None
      then show ?thesis
        using l k d tr1 tr2 v
        by (simp add: FetchFaviconBase64_def Let_def downloadIfFound_def downloadAndStore_def)
    qed
  qed
  have discovery: "FetchFaviconBase64 lib net cacheRepo resourceURL tr =
        fetchPage lib net cacheRepo ?n ?p tr1 \<and>
      (NewRequest net ?p \<longrightarrow>
         (\<exists>rest. snd (FetchFaviconBase64 lib net cacheRepo resourceURL tr) = tr1 @ PageGet ?p # rest))"
    if l: "cacheLookup cacheRepo ?n tr = (None, tr1)" and k: "getKnownServiceFavicon lib ?p = ''''"
  proof -
    have eq: "FetchFaviconBase64 lib net cacheRepo resourceURL tr = fetchPage lib net cacheRepo ?n ?p tr1"
      using l k by (simp add: FetchFaviconBase64_def Let_def downloadIfFound_def)
    have "\<exists>rest. snd (fetchPage lib net cacheRepo ?n ?p tr1) = tr1 @ PageGet ?p # rest"
      if "NewRequest net ?p"
    proof -
      have "cascadeOutcome cacheRepo ?n (tr1 @ [PageGet ?p]) (fetchPage lib net cacheRepo ?n ?p tr1)"
        using fetchPage_outcome [of net ?p lib cacheRepo ?n tr1] that by simp
      from cascadeOutcome_prefix [OF this] show ?thesis by simp
    qed
    then show ?thesis using eq by simp
  qed
  show ?thesis
    using bare table_hit table_miss found discovery by blast
qed

theorem known_service_short_circuit_witness:
  "getKnownServiceFavicon exLib ''https://github.com/x'' = ''https://github.com/favicon.ico'' \<and>
   FetchFaviconBase64 exLib exGithub (Some (exCache [])) ''github.com/x'' [] =
     ((''data:image/x-icon;base64,Zm8='', None),
      [CacheGet ''https://github.com'', HttpGet ''https://github.com/favicon.ico'',
       CacheStore ''https://github.com'' ''data:image/x-icon;base64,Zm8='']) \<and>
   filter isPageGet (snd (FetchFaviconBase64 exLib exGithub (Some (exCache [])) ''github.com/x'' [])) = [] \<and>
   getKnownServiceFavicon exLib ''https://example.com/page'' = '''' \<and>
   snd (FetchFaviconBase64 exLib (exTransport [] [] []) (Some (exCache [])) ''example.com/page'' []) =
     [CacheGet ''https://example.com'', PageGet ''https://example.com/page'']"
proof -
  have l: "cacheLookup (Some (exCache [])) (normalizeURL exLib ''github.com/x'') [] =
             (None, [CacheGet ''https://github.com''])"
    by (simp add: cacheLookup_def exCache_get exGithub_normalized)
  have u: "''https://github.com/x'' =
      (if \<not> HasPrefix ''github.com/x'' ''http://'' \<and> \<not> HasPrefix ''github.com/x'' ''https://''
       then ''https://'' @ ''github.com/x'' else ''github.com/x'')"
    by simp
  have ne: "''https://github.com/favicon.ico'' \<noteq> ''''"
    by simp
  note d = exGithub_download [of "[CacheGet ''https://github.com'']"]
  note t = known_service_short_circuit [of exLib "''github.com''" "''https://github.com/x''"
      "exURL ''https'' ''github.com'' ''/x''" "''https://github.com/favicon.ico''"
      "Some (exCache [])" "''github.com/x''" "[]" None "[CacheGet ''https://github.com'']"
      "''https://github.com/x''" "''https://github.com/favicon.ico''" exGithub
      "''data:image/x-icon;base64,Zm8=''"
      "[CacheGet ''https://github.com''] @ [HttpGet ''https://github.com/favicon.ico'']"]
  have "filter isPageGet (snd (FetchFaviconBase64 exLib exGithub (Some (exCache [])) ''github.com/x'' []))
          = filter isPageGet []"
    using t [THEN conjunct2, THEN conjunct2, THEN conjunct2, THEN conjunct1] l u exGithub_known ne d
    by blast
  then show ?thesis
    using exGithub_known exGithub_resolution exExample_unknown exDown_resolution by simp
qed

section \<open>Results: the priority of the candidates\<close>















section \<open>Results: the exported wrapper\<close>

text \<open>
  Claim C10. \<open>FetchFavicon\<close> returns the empty string as its payload on every input; its
  error and its effects are those of \<open>FetchFaviconBase64\<close>.
\<close>

theorem FetchFavicon_empty_payload:
  "fst (fst (FetchFavicon lib net cacheRepo resourceURL tr)) = '''' \<and>
   snd (fst (FetchFavicon lib net cacheRepo resourceURL tr))
     = snd (fst (FetchFaviconBase64 lib net cacheRepo resourceURL tr)) \<and>
   snd (FetchFavicon lib net cacheRepo resourceURL tr)
     = snd (FetchFaviconBase64 lib net cacheRepo resourceURL tr)"
  by (simp add: FetchFavicon_def split: prod.splits)

theorem FetchFavicon_empty_payload_witness:
  "fst (FetchFaviconBase64 exLib exGithub (Some (exCache [])) ''github.com/x'' []) =
     (''data:image/x-icon;base64,Zm8='', None) \<and>
   fst (FetchFavicon exLib exGithub (Some (exCache [])) ''github.com/x'' []) = ('''', None) \<and>
   fst (FetchFavicon exLib (exTransport [] [] []) (Some (exCache [])) ''example.com/page'' []) =
     ('''', Some FailedToFetchURL)"
  using FetchFavicon_empty_payload [of exLib exGithub "Some (exCache [])" "''github.com/x''" "[]"]
    FetchFavicon_empty_payload [of exLib "exTransport [] [] []" "Some (exCache [])" "''example.com/page''" "[]"]
  by (simp add: exGithub_resolution exDown_resolution prod_eq_iff)

section \<open>Results: the batch orchestrator\<close>

lemma count_update:
  "idx < length gs \<Longrightarrow>
   length (filter P (gs[idx := g])) + (if P (gs ! idx) then 1 else 0) =
   length (filter P gs) + (if P g then 1 else 0)"
proof (induction gs arbitrary: idx)
  case Nil
  then show ?case by simp
next
  case (Cons a gs)
  then show ?case by (cases idx) auto
qed

lemma reachable_induct [consumes 1, case_names initial step]:
  assumes "reachable resolve bs s"
    and "P (initial bs)"
    and "\<And>s s'. reachable resolve bs s \<Longrightarrow> P s \<Longrightarrow> step resolve s s' \<Longrightarrow> P s'"
  shows "P s"
  using assms(1) unfolding reachable_def
proof (induction rule: rtranclp_induct)
  case base
  then show ?case by (rule assms(2))
next
  case (step y z)
  then show ?case using assms(3) unfolding reachable_def by blast
qed

lemma reachable_lengths:
  "reachable resolve bs s \<Longrightarrow> length (bookmarks s) = length bs \<and> length (goroutines s) = length bs"
proof (induction rule: reachable_induct)
  case initial
  then show ?case by (simp add: initial_def)
next
  case (step s s')
  from step.hyps(2) step.IH show ?case by (cases rule: step.cases) auto
qed

lemma reachable_unvisited:
  "reachable resolve bs s \<Longrightarrow>
   visited s \<le> length bs \<and> (\<forall>idx. visited s \<le> idx \<and> idx < length bs \<longrightarrow> goroutines s ! idx = NotStarted)"
proof (induction rule: reachable_induct)
  case initial
  then show ?case by (simp add: initial_def visited_def)
next
  case (step s s')
  note len = reachable_lengths [OF step.hyps(1)]
  from step.hyps(2) step.IH len show ?case
    by (cases rule: step.cases) (auto simp: visited_def nth_list_update split: caller.splits)
qed

lemma reachable_semaphore:
  "reachable resolve bs s \<Longrightarrow> semaphore s = inFlight s \<and> semaphore s \<le> semaphoreCap"
proof (induction rule: reachable_induct)
  case initial
  then show ?case by (simp add: initial_def inFlight_def)
next
  case (step s s')
  note len = reachable_lengths [OF step.hyps(1)]
  note unv = reachable_unvisited [OF step.hyps(1)]
  from step.hyps(2) show ?case
  proof (cases rule: step.cases)
    case (spawn i)
    then have "goroutines s ! i = NotStarted" using unv len by (simp add: visited_def)
    then show ?thesis
      using step.IH spawn len count_update [of i "goroutines s" holdsSlot Started]
      by (auto simp: inFlight_def)
  next
    case (acquire idx)
    then show ?thesis
      using step.IH count_update [of idx "goroutines s" holdsSlot Acquired]
      by (auto simp: inFlight_def)
  next
    case (fetch idx)
    then show ?thesis
      using step.IH
        count_update [of idx "goroutines s" holdsSlot "Fetched (resolve idx (Bookmark.URL (bookmarks s ! idx)))"]
      by (auto simp: inFlight_def)
  next
    case (assign idx favicon)
    then show ?thesis
      using step.IH count_update [of idx "goroutines s" holdsSlot Written]
      by (auto simp: inFlight_def)
  next
    case (release idx)
    then show ?thesis
      using step.IH count_update [of idx "goroutines s" holdsSlot Released]
      by (auto simp: inFlight_def)
  next
    case (finish idx)
    then show ?thesis
      using step.IH count_update [of idx "goroutines s" holdsSlot Finished]
      by (auto simp: inFlight_def)
  qed (use step.IH in \<open>auto simp: inFlight_def\<close>)
qed

lemma reachable_wg:
  "reachable resolve bs s \<Longrightarrow> wg s = length (filter running (goroutines s))"
proof (induction rule: reachable_induct)
  case initial
  then show ?case by (simp add: initial_def)
next
  case (step s s')
  note len = reachable_lengths [OF step.hyps(1)]
  note unv = reachable_unvisited [OF step.hyps(1)]
  from step.hyps(2) show ?case
  proof (cases rule: step.cases)
    case (spawn i)
    then have "goroutines s ! i = NotStarted" using unv len by (simp add: visited_def)
    then show ?thesis
      using step.IH spawn len count_update [of i "goroutines s" running Started]
      by auto
  next
    case (acquire idx)
    then show ?thesis
      using step.IH count_update [of idx "goroutines s" running Acquired] by auto
  next
    case (fetch idx)
    then show ?thesis
      using step.IH
        count_update [of idx "goroutines s" running "Fetched (resolve idx (Bookmark.URL (bookmarks s ! idx)))"]
      by auto
  next
    case (assign idx favicon)
    then show ?thesis
      using step.IH count_update [of idx "goroutines s" running Written] by auto
  next
    case (release idx)
    then show ?thesis
      using step.IH count_update [of idx "goroutines s" running Released] by auto
  next
    case (finish idx)
    then show ?thesis
      using step.IH count_update [of idx "goroutines s" running Finished] by auto
  qed (use step.IH in auto)
qed

lemma reachable_records:
  "reachable resolve bs s \<Longrightarrow>
   (\<forall>idx < length bs.
      bookmarks s ! idx =
        (if wrote (goroutines s ! idx) then (bs ! idx)\<lparr>Favicon := resolve idx (Bookmark.URL (bs ! idx))\<rparr>
         else bs ! idx) \<and>
      (\<forall>favicon. goroutines s ! idx = Fetched favicon \<longrightarrow>
         favicon = resolve idx (Bookmark.URL (bs ! idx))))"
proof (induction rule: reachable_induct)
  case initial
  then show ?case by (simp add: initial_def)
next
  case (step s s')
  note len = reachable_lengths [OF step.hyps(1)]
  note unv = reachable_unvisited [OF step.hyps(1)]
  from step.hyps(2) show ?case
  proof (cases rule: step.cases)
    case (spawn i)
    then have "goroutines s ! i = NotStarted" using unv len by (simp add: visited_def)
    then show ?thesis
      using step.IH spawn len by (auto simp: nth_list_update)
  qed (use step.IH len in \<open>auto simp: nth_list_update\<close>)
qed

lemma reachable_url:
  "reachable resolve bs s \<Longrightarrow> idx < length bs \<Longrightarrow>
   Bookmark.URL (bookmarks s ! idx) = Bookmark.URL (bs ! idx)"
  using reachable_records [of resolve bs s] by auto

lemma reachable_started:
  "reachable resolve bs s \<Longrightarrow>
   (\<forall>idx < visited s. (goroutines s ! idx \<noteq> NotStarted) = (Bookmark.URL (bs ! idx) \<noteq> ''''))"
proof (induction rule: reachable_induct)
  case initial
  then show ?case by (simp add: initial_def visited_def)
next
  case (step s s')
  note len = reachable_lengths [OF step.hyps(1)]
  note unv = reachable_unvisited [OF step.hyps(1)]
  note url = reachable_url [OF step.hyps(1)]
  from step.hyps(2) show ?case
  proof (cases rule: step.cases)
    case (skip i)
    then have "goroutines s ! i = NotStarted" "Bookmark.URL (bs ! i) = ''''"
      using unv len url [of i] by (simp_all add: visited_def)
    then show ?thesis
      using step.IH skip by (auto simp: visited_def less_Suc_eq)
  next
    case (spawn i)
    then have "Bookmark.URL (bs ! i) \<noteq> ''''"
      using len url [of i] by simp
    then show ?thesis
      using step.IH spawn len by (auto simp: visited_def less_Suc_eq nth_list_update)
  next
    case (leave i)
    then have "i = length bs" using unv len by (simp add: visited_def)
    then show ?thesis
      using step.IH leave len by (auto simp: visited_def)
  qed (use step.IH len in \<open>auto simp: visited_def nth_list_update split: caller.splits\<close>)
qed

lemma reachable_returned:
  "reachable resolve bs s \<Longrightarrow> pc s = Returned \<longrightarrow> wg s = 0"
proof (induction rule: reachable_induct)
  case initial
  then show ?case by (simp add: initial_def)
next
  case (step s s')
  from step.hyps(2) step.IH show ?case
    by (cases rule: step.cases) auto
qed

lemma returned_goroutines:
  assumes "reachable resolve bs s" "pc s = Returned" "idx < length bs"
  shows "goroutines s ! idx = (if Bookmark.URL (bs ! idx) = '''' then NotStarted else Finished)"
proof -
  note len = reachable_lengths [OF assms(1)]
  have "filter running (goroutines s) = []"
    using reachable_wg [OF assms(1)] reachable_returned [OF assms(1)] assms(2) by simp
  then have "\<not> running (goroutines s ! idx)"
    using assms(3) len by (simp add: filter_empty_conv)
  then have "goroutines s ! idx = NotStarted \<or> goroutines s ! idx = Finished"
    by (cases "goroutines s ! idx") auto
  moreover have "(goroutines s ! idx \<noteq> NotStarted) = (Bookmark.URL (bs ! idx) \<noteq> '''')"
    using reachable_started [OF assms(1)] assms(2,3) len by (simp add: visited_def)
  ultimately show ?thesis by auto
qed

lemma returned_bookmarks:
  assumes "reachable resolve bs s" "pc s = Returned"
  shows "bookmarks s = map (\<lambda>idx. settled resolve idx (bs ! idx)) [0..<length bs]"
proof (rule nth_equalityI)
  show "length (bookmarks s) = length (map (\<lambda>idx. settled resolve idx (bs ! idx)) [0..<length bs])"
    using reachable_lengths [OF assms(1)] by simp
next
  fix idx assume "idx < length (bookmarks s)"
  then have idx: "idx < length bs" using reachable_lengths [OF assms(1)] by simp
  show "bookmarks s ! idx = map (\<lambda>idx. settled resolve idx (bs ! idx)) [0..<length bs] ! idx"
    using reachable_records [OF assms(1)] returned_goroutines [OF assms idx] idx
    by (simp add: settled_def)
qed

lemma remaining_update:
  "idx < length gs \<Longrightarrow>
   sum_list (map remaining (gs[idx := g])) + remaining (gs ! idx) =
   sum_list (map remaining gs) + remaining g"
proof (induction gs arbitrary: idx)
  case Nil
  then show ?case by simp
next
  case (Cons a gs)
  then show ?case by (cases idx) auto
qed

lemma step_decreases:
  assumes "reachable resolve bs s" "step resolve s s'"
  shows "stepsLeft s' < stepsLeft s"
proof -
  note len = reachable_lengths [OF assms(1)]
  note unv = reachable_unvisited [OF assms(1)]
  from assms(2) show ?thesis
  proof (cases rule: step.cases)
    case (skip i)
    then show ?thesis by (auto simp: stepsLeft_def)
  next
    case (spawn i)
    then have "goroutines s ! i = NotStarted" using unv len by (simp add: visited_def)
    then show ?thesis
      using spawn len remaining_update [of i "goroutines s" Started]
      by (auto simp: stepsLeft_def)
  next
    case (leave i)
    then show ?thesis by (auto simp: stepsLeft_def)
  next
    case wait
    then show ?thesis by (auto simp: stepsLeft_def)
  next
    case (acquire idx)
    then show ?thesis
      using remaining_update [of idx "goroutines s" Acquired]
      by (auto simp: stepsLeft_def)
  next
    case (fetch idx)
    then show ?thesis
      using remaining_update [of idx "goroutines s" "Fetched (resolve idx (Bookmark.URL (bookmarks s ! idx)))"]
      by (auto simp: stepsLeft_def)
  next
    case (assign idx favicon)
    then show ?thesis
      using remaining_update [of idx "goroutines s" Written]
      by (auto simp: stepsLeft_def)
  next
    case (release idx)
    then show ?thesis
      using remaining_update [of idx "goroutines s" Released]
      by (auto simp: stepsLeft_def)
  next
    case (finish idx)
    then show ?thesis
      using remaining_update [of idx "goroutines s" Finished]
      by (auto simp: stepsLeft_def)
  qed
qed

lemma slot_holder_steps:
  assumes "idx < length (goroutines s)" "holdsSlot (goroutines s ! idx)" "0 < semaphore s"
  shows "\<exists>s'. step resolve s s'"
proof (cases "goroutines s ! idx")
  case Acquired
  then show ?thesis using step.fetch [OF assms(1)] by blast
next
  case (Fetched favicon)
  then show ?thesis using step.assign [OF assms(1)] by blast
next
  case Written
  then show ?thesis using step.release [OF assms(1) _ assms(3)] by blast
qed (use assms(2) in auto)

lemma never_stuck:
  assumes "reachable resolve bs s" "pc s \<noteq> Returned"
  shows "\<exists>s'. step resolve s s'"
proof (cases "pc s")
  case (Loop i)
  show ?thesis
  proof (cases "i < length (bookmarks s)")
    case True
    then show ?thesis
      using Loop step.skip [of s i resolve] step.spawn [of s i resolve] by blast
  next
    case False
    then show ?thesis using Loop step.leave [of s i resolve] by blast
  qed
next
  case Wait
  note sem = reachable_semaphore [OF assms(1)]
  note cnt = reachable_wg [OF assms(1)]
  show ?thesis
  proof (cases "wg s = 0")
    case True
    then show ?thesis using Wait step.wait [of s resolve] by blast
  next
    case False
    then have "filter running (goroutines s) \<noteq> []" using cnt by auto
    then obtain g where "g \<in> set (goroutines s)" "running g"
      by (auto simp: filter_empty_conv)
    then obtain idx where idx: "idx < length (goroutines s)" "running (goroutines s ! idx)"
      by (auto simp: in_set_conv_nth)
    show ?thesis
    proof (cases "holdsSlot (goroutines s ! idx)")
      case True
      then have "filter holdsSlot (goroutines s) \<noteq> []"
        using idx(1) by (auto simp: filter_empty_conv)
      then have "0 < semaphore s" using sem by (simp add: inFlight_def)
      then show ?thesis using slot_holder_steps [OF idx(1) True] by blast
    next
      case noSlot: False
      show ?thesis
      proof (cases "goroutines s ! idx")
        case Started
        show ?thesis
        proof (cases "semaphore s < semaphoreCap")
          case True
          then show ?thesis using step.acquire [OF idx(1) Started] by blast
        next
          case False
          then have pos: "0 < semaphore s" by (simp add: semaphoreCap_def)
          then have "filter holdsSlot (goroutines s) \<noteq> []"
            using sem by (auto simp: inFlight_def)
          then obtain h where "h \<in> set (goroutines s)" "holdsSlot h"
            by (auto simp: filter_empty_conv)
          then obtain k where "k < length (goroutines s)" "holdsSlot (goroutines s ! k)"
            by (auto simp: in_set_conv_nth)
          then show ?thesis using slot_holder_steps pos by blast
        qed
      next
        case Released
        have "0 < wg s" using False by simp
        then show ?thesis using step.finish [OF idx(1) Released] by blast
      qed (use idx(2) noSlot in auto)
    qed
  qed
next
  case Returned
  then show ?thesis using assms(2) by simp
qed

lemma reachable_step: "reachable resolve bs s \<Longrightarrow> step resolve s s' \<Longrightarrow> reachable resolve bs s'"
  unfolding reachable_def by (rule rtranclp.rtrancl_into_rtrancl)

lemma always_returns:
  "reachable resolve bs s \<Longrightarrow> \<exists>s'. (step resolve)\<^sup>*\<^sup>* s s' \<and> pc s' = Returned"
proof (induction "stepsLeft s" arbitrary: s rule: less_induct)
  case less
  show ?case
  proof (cases "pc s = Returned")
    case True
    then show ?thesis by blast
  next
    case False
    then obtain s1 where s1: "step resolve s s1"
      using never_stuck [OF less.prems] by blast
    have "reachable resolve bs s1" using reachable_step [OF less.prems s1] .
    moreover have "stepsLeft s1 < stepsLeft s" using step_decreases [OF less.prems s1] .
    ultimately obtain s' where "(step resolve)\<^sup>*\<^sup>* s1 s'" "pc s' = Returned"
      using less.hyps by blast
    then show ?thesis using s1 by (meson converse_rtranclp_into_rtranclp)
  qed
qed

lemma returns_from_initial: "\<exists>s. reachable resolve bs s \<and> pc s = Returned"
proof -
  have "reachable resolve bs (initial bs)" by (simp add: reachable_def)
  from always_returns [OF this] show ?thesis by (simp add: reachable_def)
qed

lemma exResolve_github:
  "resolveWith exLib exEnv 0 ''github.com/x'' = ''data:image/x-icon;base64,Zm8=''"
  by (simp add: resolveWith_def getFavicon_def exEnv_def exGithub_resolution)

lemma exResolve_example:
  "idx \<noteq> 0 \<Longrightarrow> resolveWith exLib exEnv idx ''example.com/page'' = ''''"
  by (simp add: resolveWith_def getFavicon_def exEnv_def exDown_resolution)

lemma exRunning_reachable: "reachable resolve exBookmarks exRunning"
proof -
  let ?N = NotStarted
  have 0: "initial exBookmarks = exState exBookmarks [?N, ?N, ?N] 0 0 (Loop 0)"
    by (simp add: initial_def exState_def exBookmarks_def)
  have 1: "step resolve (exState exBookmarks [?N, ?N, ?N] 0 0 (Loop 0))
             (exState exBookmarks [Started, ?N, ?N] 0 (Suc 0) (Loop (Suc 0)))"
    using step.spawn [of "exState exBookmarks [?N, ?N, ?N] 0 0 (Loop 0)" 0 resolve]
    by (simp add: exState_def exBookmarks_def exBookmark_def)
  have 2: "step resolve (exState exBookmarks [Started, ?N, ?N] 0 (Suc 0) (Loop (Suc 0)))
             (exState exBookmarks [Started, ?N, ?N] 0 (Suc 0) (Loop (Suc (Suc 0))))"
    using step.skip [of "exState exBookmarks [Started, ?N, ?N] 0 (Suc 0) (Loop (Suc 0))" "Suc 0" resolve]
    by (simp add: exState_def exBookmarks_def exBookmark_def)
  have 3: "step resolve (exState exBookmarks [Started, ?N, ?N] 0 (Suc 0) (Loop (Suc (Suc 0))))
             (exState exBookmarks [Started, ?N, Started] 0 (Suc (Suc 0)) (Loop (Suc (Suc (Suc 0)))))"
    using step.spawn [of "exState exBookmarks [Started, ?N, ?N] 0 (Suc 0) (Loop (Suc (Suc 0)))"
        "Suc (Suc 0)" resolve]
    by (simp add: exState_def exBookmarks_def exBookmark_def)
  have 4: "step resolve (exState exBookmarks [Started, ?N, Started] 0 (Suc (Suc 0)) (Loop (Suc (Suc (Suc 0)))))
             (exState exBookmarks [Started, ?N, Started] 0 (Suc (Suc 0)) Wait)"
    using step.leave [of "exState exBookmarks [Started, ?N, Started] 0 (Suc (Suc 0)) (Loop (Suc (Suc (Suc 0))))"
        "Suc (Suc (Suc 0))" resolve]
    by (simp add: exState_def exBookmarks_def)
  have 5: "step resolve (exState exBookmarks [Started, ?N, Started] 0 (Suc (Suc 0)) Wait)
             (exState exBookmarks [Acquired, ?N, Started] (Suc 0) (Suc (Suc 0)) Wait)"
    using step.acquire [of 0 "exState exBookmarks [Started, ?N, Started] 0 (Suc (Suc 0)) Wait" resolve]
    by (simp add: exState_def semaphoreCap_def)
  have "(step resolve)\<^sup>*\<^sup>* (exState exBookmarks [?N, ?N, ?N] 0 0 (Loop 0))
          (exState exBookmarks [Acquired, ?N, Started] (Suc 0) (Suc (Suc 0)) Wait)"
    using 1 2 3 4 5 by (meson rtranclp.rtrancl_into_rtrancl rtranclp.rtrancl_refl)
  then show ?thesis
    by (simp add: reachable_def 0 exRunning_def)
qed

lemma exReturned_reachable: "reachable (resolveWith exLib exEnv) exBookmarks exReturned"
proof -
  let ?r = "resolveWith exLib exEnv"
  let ?N = NotStarted
  let ?icon = "''data:image/x-icon;base64,Zm8=''"
  let ?b1 = "[exBookmark ''GitHub'' ''github.com/x'' ?icon,
              exBookmark ''No address'' '''' ''kept'',
              exBookmark ''Example'' ''example.com/page'' ''replaced'']"
  have 1: "step ?r (exState exBookmarks [Acquired, ?N, Started] (Suc 0) (Suc (Suc 0)) Wait)
             (exState exBookmarks [Fetched ?icon, ?N, Started] (Suc 0) (Suc (Suc 0)) Wait)"
    using step.fetch [of 0 "exState exBookmarks [Acquired, ?N, Started] (Suc 0) (Suc (Suc 0)) Wait" ?r]
      exResolve_github
    by (simp add: exState_def exBookmarks_def exBookmark_def)
  have 2: "step ?r (exState exBookmarks [Fetched ?icon, ?N, Started] (Suc 0) (Suc (Suc 0)) Wait)
             (exState ?b1 [Written, ?N, Started] (Suc 0) (Suc (Suc 0)) Wait)"
    using step.assign [of 0 "exState exBookmarks [Fetched ?icon, ?N, Started] (Suc 0) (Suc (Suc 0)) Wait"
        ?icon ?r]
    by (simp add: exState_def exBookmarks_def exBookmark_def)
  have 3: "step ?r (exState ?b1 [Written, ?N, Started] (Suc 0) (Suc (Suc 0)) Wait)
             (exState ?b1 [Released, ?N, Started] 0 (Suc (Suc 0)) Wait)"
    using step.release [of 0 "exState ?b1 [Written, ?N, Started] (Suc 0) (Suc (Suc 0)) Wait" ?r]
    by (simp add: exState_def)
  have 4: "step ?r (exState ?b1 [Released, ?N, Started] 0 (Suc (Suc 0)) Wait)
             (exState ?b1 [Finished, ?N, Started] 0 (Suc 0) Wait)"
    using step.finish [of 0 "exState ?b1 [Released, ?N, Started] 0 (Suc (Suc 0)) Wait" ?r]
    by (simp add: exState_def)
  have 5: "step ?r (exState ?b1 [Finished, ?N, Started] 0 (Suc 0) Wait)
             (exState ?b1 [Finished, ?N, Acquired] (Suc 0) (Suc 0) Wait)"
    using step.acquire [of "Suc (Suc 0)" "exState ?b1 [Finished, ?N, Started] 0 (Suc 0) Wait" ?r]
    by (simp add: exState_def semaphoreCap_def)
  have 6: "step ?r (exState ?b1 [Finished, ?N, Acquired] (Suc 0) (Suc 0) Wait)
             (exState ?b1 [Finished, ?N, Fetched ''''] (Suc 0) (Suc 0) Wait)"
    using step.fetch [of "Suc (Suc 0)" "exState ?b1 [Finished, ?N, Acquired] (Suc 0) (Suc 0) Wait" ?r]
      exResolve_example [of "Suc (Suc 0)"]
    by (simp add: exState_def exBookmark_def)
  have 7: "step ?r (exState ?b1 [Finished, ?N, Fetched ''''] (Suc 0) (Suc 0) Wait)
             (exState exSettled [Finished, ?N, Written] (Suc 0) (Suc 0) Wait)"
    using step.assign [of "Suc (Suc 0)" "exState ?b1 [Finished, ?N, Fetched ''''] (Suc 0) (Suc 0) Wait"
        "''''" ?r]
    by (simp add: exState_def exSettled_def exBookmark_def)
  have 8: "step ?r (exState exSettled [Finished, ?N, Written] (Suc 0) (Suc 0) Wait)
             (exState exSettled [Finished, ?N, Released] 0 (Suc 0) Wait)"
    using step.release [of "Suc (Suc 0)" "exState exSettled [Finished, ?N, Written] (Suc 0) (Suc 0) Wait" ?r]
    by (simp add: exState_def)
  have 9: "step ?r (exState exSettled [Finished, ?N, Released] 0 (Suc 0) Wait)
             (exState exSettled [Finished, ?N, Finished] 0 0 Wait)"
    using step.finish [of "Suc (Suc 0)" "exState exSettled [Finished, ?N, Released] 0 (Suc 0) Wait" ?r]
    by (simp add: exState_def)
  have 10: "step ?r (exState exSettled [Finished, ?N, Finished] 0 0 Wait)
             (exState exSettled [Finished, ?N, Finished] 0 0 Returned)"
    using step.wait [of "exState exSettled [Finished, ?N, Finished] 0 0 Wait" ?r]
    by (simp add: exState_def)
  have "reachable ?r exBookmarks (exState exBookmarks [Acquired, ?N, Started] (Suc 0) (Suc (Suc 0)) Wait)"
    using exRunning_reachable [of ?r] by (simp add: exRunning_def)
  then have "reachable ?r exBookmarks (exState exSettled [Finished, ?N, Finished] 0 0 Returned)"
    using 1 2 3 4 5 6 7 8 9 10 by (meson reachable_step)
  then show ?thesis by (simp add: exReturned_def)
qed

lemma loop_runs:
  "i \<le> length bs \<Longrightarrow>
   reachable resolve bs
     \<lparr>bookmarks = bs,
      goroutines = map spawnedFor (take i bs) @ replicate (length bs - i) NotStarted,
      semaphore = 0, wg = tasks (take i bs), pc = Loop i\<rparr>"
proof (induction i)
  case 0
  then show ?case by (simp add: reachable_def initial_def tasks_def)
next
  case (Suc i)
  let ?s = "\<lparr>bookmarks = bs,
      goroutines = map spawnedFor (take i bs) @ replicate (length bs - i) NotStarted,
      semaphore = 0, wg = tasks (take i bs), pc = Loop i\<rparr>"
  from Suc have i: "i < length bs" and r: "reachable resolve bs ?s" by simp_all
  have rep: "replicate (length bs - i) NotStarted = NotStarted # replicate (length bs - Suc i) NotStarted"
    using i by (cases "length bs - i") (simp_all add: Suc_diff_Suc)
  have tk: "take (Suc i) bs = take i bs @ [bs ! i]"
    using i by (simp add: take_Suc_conv_app_nth)
  have len: "length (map spawnedFor (take i bs)) = i" using i by simp
  show ?case
  proof (cases "Bookmark.URL (bs ! i) = ''''")
    case True
    have "step resolve ?s (?s\<lparr>pc := Loop (i + 1)\<rparr>)"
      by (rule step.skip) (use i True in simp_all)
    moreover have "?s\<lparr>pc := Loop (i + 1)\<rparr> =
      \<lparr>bookmarks = bs,
       goroutines = map spawnedFor (take (Suc i) bs) @ replicate (length bs - Suc i) NotStarted,
       semaphore = 0, wg = tasks (take (Suc i) bs), pc = Loop (Suc i)\<rparr>"
      using True by (simp add: tk rep spawnedFor_def tasks_def)
    ultimately show ?thesis using reachable_step [OF r] by simp
  next
    case False
    have "step resolve ?s (?s\<lparr>goroutines := (goroutines ?s)[i := Started], wg := wg ?s + 1, pc := Loop (i + 1)\<rparr>)"
      by (rule step.spawn) (use i False in simp_all)
    moreover have "?s\<lparr>goroutines := (goroutines ?s)[i := Started], wg := wg ?s + 1, pc := Loop (i + 1)\<rparr> =
      \<lparr>bookmarks = bs,
       goroutines = map spawnedFor (take (Suc i) bs) @ replicate (length bs - Suc i) NotStarted,
       semaphore = 0, wg = tasks (take (Suc i) bs), pc = Loop (Suc i)\<rparr>"
      using False len by (simp add: tk rep spawnedFor_def tasks_def list_update_append)
    ultimately show ?thesis using reachable_step [OF r] by simp
  qed
qed

lemma admit_step:
  "k < length (filter (\<lambda>g. g = Started) gs) \<Longrightarrow>
   \<exists>idx < length gs. admit k gs ! idx = Started \<and> admit (Suc k) gs = (admit k gs)[idx := Acquired]"
proof (induction gs arbitrary: k)
  case Nil
  then show ?case by simp
next
  case (Cons g gs)
  show ?case
  proof (cases "g = Started")
    case True
    show ?thesis
    proof (cases k)
      case 0
      then show ?thesis using True by (intro exI [of _ 0]) simp
    next
      case (Suc j)
      then have "j < length (filter (\<lambda>g. g = Started) gs)" using Cons.prems True by simp
      from Cons.IH [OF this] obtain idx where
        "idx < length gs" "admit j gs ! idx = Started" "admit (Suc j) gs = (admit j gs)[idx := Acquired]"
        by blast
      then show ?thesis using True Suc by (intro exI [of _ "Suc idx"]) simp
    qed
  next
    case False
    then have "k < length (filter (\<lambda>g. g = Started) gs)" using Cons.prems by simp
    from Cons.IH [OF this] obtain idx where idx:
      "idx < length gs" "admit k gs ! idx = Started" "admit (Suc k) gs = (admit k gs)[idx := Acquired]"
      by blast
    show ?thesis
    proof (cases k)
      case 0
      then show ?thesis using False idx by (intro exI [of _ "Suc idx"]) simp
    next
      case (Suc j)
      then show ?thesis using False idx by (intro exI [of _ "Suc idx"]) simp
    qed
  qed
qed

lemma admit_length: "length (admit k gs) = length gs"
  by (induction k gs rule: admit.induct) auto

lemma admit_waiting:
  "length (filter (\<lambda>g. g = Started) (admit k gs)) = length (filter (\<lambda>g. g = Started) gs) - k"
  by (induction k gs rule: admit.induct) auto

lemma spawned_waiting: "length (filter (\<lambda>g. g = Started) (map spawnedFor bs)) = tasks bs"
  by (induction bs) (auto simp: spawnedFor_def tasks_def)

lemma admitted_reachable:
  "k \<le> 10 \<Longrightarrow> k \<le> tasks bs \<Longrightarrow> reachable resolve bs (admitted bs k)"
proof (induction k)
  case 0
  let ?s = "\<lparr>bookmarks = bs,
      goroutines = map spawnedFor (take (length bs) bs) @ replicate (length bs - length bs) NotStarted,
      semaphore = 0, wg = tasks (take (length bs) bs), pc = Loop (length bs)\<rparr>"
  have r: "reachable resolve bs ?s" by (rule loop_runs) simp
  have "step resolve ?s (?s\<lparr>pc := Wait\<rparr>)"
    by (rule step.leave [of _ "length bs"]) simp_all
  then show ?case using reachable_step [OF r] by (simp add: admitted_def)
next
  case (Suc k)
  then have r: "reachable resolve bs (admitted bs k)" by simp
  have "k < length (filter (\<lambda>g. g = Started) (map spawnedFor bs))"
    using Suc.prems spawned_waiting [of bs] by simp
  from admit_step [OF this] obtain idx where idx:
    "idx < length bs" "admit k (map spawnedFor bs) ! idx = Started"
    "admit (Suc k) (map spawnedFor bs) = (admit k (map spawnedFor bs))[idx := Acquired]"
    by auto
  have "step resolve (admitted bs k)
          ((admitted bs k)\<lparr>goroutines := (goroutines (admitted bs k))[idx := Acquired],
                          semaphore := semaphore (admitted bs k) + 1\<rparr>)"
    by (rule step.acquire) (use idx Suc.prems in \<open>simp_all add: admitted_def admit_length semaphoreCap_def\<close>)
  moreover have "(admitted bs k)\<lparr>goroutines := (goroutines (admitted bs k))[idx := Acquired],
                          semaphore := semaphore (admitted bs k) + 1\<rparr> = admitted bs (Suc k)"
    using idx(3) by (simp add: admitted_def)
  ultimately show ?case using reachable_step [OF r] by simp
qed

lemma full_reachable:
  "\<exists>s. reachable resolve bs s \<and> pc s = Wait \<and> inFlight s = min 10 (tasks bs) \<and> waiting s = tasks bs - 10"
proof -
  let ?k = "min 10 (tasks bs)"
  have r: "reachable resolve bs (admitted bs ?k)"
    by (rule admitted_reachable) simp_all
  have "inFlight (admitted bs ?k) = ?k"
    using reachable_semaphore [OF r] by (simp add: admitted_def)
  moreover have "waiting (admitted bs ?k) = tasks bs - 10"
    using spawned_waiting [of bs] by (simp add: waiting_def admitted_def admit_waiting)
  moreover have "pc (admitted bs ?k) = Wait" by (simp add: admitted_def)
  ultimately show ?thesis using r by blast
qed

lemma exFull_reachable: "reachable resolve exMany exFull"
proof -
  have t: "tasks exMany = 11" by code_simp
  have "admitted exMany 10 = exFull" by code_simp
  then show ?thesis using admitted_reachable [of 10 exMany resolve] t by simp
qed

text \<open>
  Claim C9. In every state a batch can reach, at most 10 goroutines hold a slot of the
  semaphore (a goroutine runs \<open>getFavicon\<close> only while it holds one), and their number is
  the number of elements in the channel. A goroutine has been started for exactly the
  records with a non-empty URL that the loop has gone past, one for each. A started
  goroutine can take a slot exactly when fewer than 10 hold one: the capacity is 10, no
  less. While 10 goroutines hold a slot, no step takes a started goroutine past its send:
  it waits. And every batch reaches a state in which as many goroutines hold a slot as
  there are tasks, up to 10, with all the other tasks waiting at their send.
\<close>

theorem semaphore_bounds_in_flight:
  "(\<forall>s. reachable resolve bs s \<longrightarrow>
     inFlight s \<le> 10 \<and> semaphore s = inFlight s \<and>
     (\<forall>idx < length bs.
        (goroutines s ! idx \<noteq> NotStarted) = (idx < visited s \<and> Bookmark.URL (bs ! idx) \<noteq> '''')) \<and>
     (\<forall>idx < length bs. goroutines s ! idx = Started \<longrightarrow>
        (\<exists>s'. step resolve s s' \<and> goroutines s' ! idx = Acquired) = (inFlight s < 10)) \<and>
     (\<forall>s' idx. step resolve s s' \<and> inFlight s = 10 \<and> idx < length bs \<and> goroutines s ! idx = Started \<longrightarrow>
        goroutines s' ! idx = Started)) \<and>
   (\<exists>s. reachable resolve bs s \<and> pc s = Wait \<and> inFlight s = min 10 (tasks bs) \<and>
        waiting s = tasks bs - 10)"
proof (rule conjI)
  show "\<forall>s. reachable resolve bs s \<longrightarrow>
     inFlight s \<le> 10 \<and> semaphore s = inFlight s \<and>
     (\<forall>idx < length bs.
        (goroutines s ! idx \<noteq> NotStarted) = (idx < visited s \<and> Bookmark.URL (bs ! idx) \<noteq> '''')) \<and>
     (\<forall>idx < length bs. goroutines s ! idx = Started \<longrightarrow>
        (\<exists>s'. step resolve s s' \<and> goroutines s' ! idx = Acquired) = (inFlight s < 10)) \<and>
     (\<forall>s' idx. step resolve s s' \<and> inFlight s = 10 \<and> idx < length bs \<and> goroutines s ! idx = Started \<longrightarrow>
        goroutines s' ! idx = Started)"
  proof (rule allI, rule impI)
    fix s assume r: "reachable resolve bs s"
    note len = reachable_lengths [OF r]
    note sem = reachable_semaphore [OF r]
    note unv = reachable_unvisited [OF r]
    note sta = reachable_started [OF r]
    have bound: "inFlight s \<le> 10" "semaphore s = inFlight s"
      using sem by (simp_all add: semaphoreCap_def)
    have spawned: "\<forall>idx < length bs.
        (goroutines s ! idx \<noteq> NotStarted) = (idx < visited s \<and> Bookmark.URL (bs ! idx) \<noteq> '''')"
    proof (intro allI impI)
      fix idx assume "idx < length bs"
      then show "(goroutines s ! idx \<noteq> NotStarted) = (idx < visited s \<and> Bookmark.URL (bs ! idx) \<noteq> '''')"
        using unv sta by (cases "idx < visited s") auto
    qed
    have admission: "\<forall>idx < length bs. goroutines s ! idx = Started \<longrightarrow>
        (\<exists>s'. step resolve s s' \<and> goroutines s' ! idx = Acquired) = (inFlight s < 10)"
    proof (intro allI impI)
      fix idx assume idx: "idx < length bs" and g: "goroutines s ! idx = Started"
      show "(\<exists>s'. step resolve s s' \<and> goroutines s' ! idx = Acquired) = (inFlight s < 10)"
      proof
        assume "\<exists>s'. step resolve s s' \<and> goroutines s' ! idx = Acquired"
        then obtain s' where st: "step resolve s s'" and a: "goroutines s' ! idx = Acquired" by blast
        from st show "inFlight s < 10"
        proof (cases rule: step.cases)
          case (acquire k)
          then show ?thesis using sem by (simp add: semaphoreCap_def)
        qed (use a g idx len in \<open>auto simp: nth_list_update split: if_splits\<close>)
      next
        assume "inFlight s < 10"
        then have "semaphore s < semaphoreCap" using sem by (simp add: semaphoreCap_def)
        from step.acquire [OF _ g this, of resolve] idx len
        show "\<exists>s'. step resolve s s' \<and> goroutines s' ! idx = Acquired"
          by (intro exI [of _ "s\<lparr>goroutines := (goroutines s)[idx := Acquired], semaphore := semaphore s + 1\<rparr>"]) simp
      qed
    qed
    have waits: "goroutines s' ! idx = Started"
      if "step resolve s s'" "inFlight s = 10" "idx < length bs" "goroutines s ! idx = Started" for s' idx
      using that(1)
    proof (cases rule: step.cases)
      case (acquire k)
      then show ?thesis using that(2) sem by (simp add: semaphoreCap_def)
    qed (use that len in \<open>auto simp: nth_list_update\<close>)
    show "inFlight s \<le> 10 \<and> semaphore s = inFlight s \<and>
     (\<forall>idx < length bs.
        (goroutines s ! idx \<noteq> NotStarted) = (idx < visited s \<and> Bookmark.URL (bs ! idx) \<noteq> '''')) \<and>
     (\<forall>idx < length bs. goroutines s ! idx = Started \<longrightarrow>
        (\<exists>s'. step resolve s s' \<and> goroutines s' ! idx = Acquired) = (inFlight s < 10)) \<and>
     (\<forall>s' idx. step resolve s s' \<and> inFlight s = 10 \<and> idx < length bs \<and> goroutines s ! idx = Started \<longrightarrow>
        goroutines s' ! idx = Started)"
      using bound spawned admission waits by blast
  qed
next
  show "\<exists>s. reachable resolve bs s \<and> pc s = Wait \<and> inFlight s = min 10 (tasks bs) \<and>
        waiting s = tasks bs - 10"
    by (rule full_reachable)
qed

theorem semaphore_bounds_in_flight_witness:
  "reachable (resolveWith exLib exEnv) exBookmarks exRunning \<and>
   inFlight exRunning = 1 \<and>
   goroutines exRunning ! 2 = Started \<and>
   (\<exists>s'. step (resolveWith exLib exEnv) exRunning s' \<and> goroutines s' ! 2 = Acquired) \<and>
   tasks exMany = 11 \<and>
   reachable (resolveWith exLib exEnv) exMany exFull \<and>
   inFlight exFull = 10 \<and> waiting exFull = 1 \<and>
   goroutines exFull ! 11 = Started \<and>
   \<not> (\<exists>s'. step (resolveWith exLib exEnv) exFull s' \<and> goroutines s' ! 11 = Acquired)"
proof -
  let ?r = "resolveWith exLib exEnv"
  note running = semaphore_bounds_in_flight [of ?r exBookmarks, THEN conjunct1, THEN spec, THEN mp, OF exRunning_reachable]
  note full = semaphore_bounds_in_flight [of ?r exMany, THEN conjunct1, THEN spec, THEN mp, OF exFull_reachable]
  have r1: "inFlight exRunning = 1" by code_simp
  have r2: "goroutines exRunning ! 2 = Started" by code_simp
  have r3: "(2::nat) < length exBookmarks" by code_simp
  have f0: "tasks exMany = 11" by code_simp
  have f1: "inFlight exFull = 10" by code_simp
  have f2: "goroutines exFull ! 11 = Started" by code_simp
  have f3: "(11::nat) < length exMany" by code_simp
  have f4: "waiting exFull = 1" by code_simp
  have a: "\<exists>s'. step ?r exRunning s' \<and> goroutines s' ! 2 = Acquired"
    using running r1 r2 r3 by simp
  have b: "\<not> (\<exists>s'. step ?r exFull s' \<and> goroutines s' ! 11 = Acquired)"
    using full f1 f2 f3 by simp
  show ?thesis
    using a b r1 r2 f0 f1 f2 f4 exRunning_reachable [of ?r] exFull_reachable [of ?r] by (intro conjI)
qed

text \<open>
  Claim C8. In every state a batch can reach, a record with an empty URL has no
  goroutine and is as it was given. Once the caller has returned, every goroutine that
  was started has finished, and the records are those given, each with a non-empty URL
  having its \<open>Favicon\<close> replaced by what \<open>getFavicon\<close> returned to its own goroutine for its
  own URL: the icon of \<open>FetchFaviconBase64\<close>, or the empty string when that returned an
  error. From every reachable state the batch goes on to a state in which the caller has
  returned.
\<close>

theorem batch_settles_each_record:
  "reachable (resolveWith lib env) bs s \<Longrightarrow>
   (\<forall>idx < length bs. Bookmark.URL (bs ! idx) = '''' \<longrightarrow>
      goroutines s ! idx = NotStarted \<and> bookmarks s ! idx = bs ! idx) \<and>
   (pc s = Returned \<longrightarrow>
      (\<forall>idx < length bs.
         goroutines s ! idx = (if Bookmark.URL (bs ! idx) = '''' then NotStarted else Finished)) \<and>
      bookmarks s = settledAll (resolveWith lib env) bs) \<and>
   (\<forall>idx b. settled (resolveWith lib env) idx b =
      (if Bookmark.URL b = '''' then b
       else b\<lparr>Favicon :=
              (case FetchFaviconBase64 lib (fst (env idx)) (snd (env idx)) (Bookmark.URL b) [] of
                 ((favicon, err), tr') \<Rightarrow> if err = None then favicon else '''')\<rparr>)) \<and>
   (\<exists>s'. (step (resolveWith lib env))\<^sup>*\<^sup>* s s' \<and> pc s' = Returned)"
proof -
  assume r: "reachable (resolveWith lib env) bs s"
  note unv = reachable_unvisited [OF r]
  note sta = reachable_started [OF r]
  note rec = reachable_records [OF r]
  have skipped: "\<forall>idx < length bs. Bookmark.URL (bs ! idx) = '''' \<longrightarrow>
      goroutines s ! idx = NotStarted \<and> bookmarks s ! idx = bs ! idx"
  proof (intro allI impI)
    fix idx assume idx: "idx < length bs" and url: "Bookmark.URL (bs ! idx) = ''''"
    have g: "goroutines s ! idx = NotStarted"
      using unv sta idx url by (cases "idx < visited s") auto
    then show "goroutines s ! idx = NotStarted \<and> bookmarks s ! idx = bs ! idx"
      using rec idx by simp
  qed
  have returned: "pc s = Returned \<longrightarrow>
      (\<forall>idx < length bs.
         goroutines s ! idx = (if Bookmark.URL (bs ! idx) = '''' then NotStarted else Finished)) \<and>
      bookmarks s = settledAll (resolveWith lib env) bs"
    using returned_goroutines [OF r] returned_bookmarks [OF r] by (simp add: settledAll_def)
  have own: "\<forall>idx b. settled (resolveWith lib env) idx b =
      (if Bookmark.URL b = '''' then b
       else b\<lparr>Favicon :=
              (case FetchFaviconBase64 lib (fst (env idx)) (snd (env idx)) (Bookmark.URL b) [] of
                 ((favicon, err), tr') \<Rightarrow> if err = None then favicon else '''')\<rparr>)"
    by (auto simp: settled_def resolveWith_def getFavicon_def split: prod.splits)
  show ?thesis
    using skipped returned own always_returns [OF r] by blast
qed

theorem batch_settles_each_record_witness:
  "reachable (resolveWith exLib exEnv) exBookmarks exReturned \<and>
   pc exReturned = Returned \<and>
   goroutines exReturned = [Finished, NotStarted, Finished] \<and>
   bookmarks exReturned = exSettled \<and>
   settledAll (resolveWith exLib exEnv) exBookmarks = exSettled"
proof -
  have p: "pc exReturned = Returned"
    by (simp add: exReturned_def exState_def)
  have "bookmarks exReturned = settledAll (resolveWith exLib exEnv) exBookmarks"
    using batch_settles_each_record [OF exReturned_reachable] p by blast
  then show ?thesis
    using exReturned_reachable by (simp add: exReturned_def exState_def)
qed

end
